theory Spec2Isabelle
  imports Complex_Main
begin

section \<open>Text primitives\<close>

text \<open>
  Python strings are modelled as \<open>string\<close>; one \<open>char\<close> stands for one code point, so
  \<open>length\<close> is Python's \<open>len\<close>. Nothing below depends on the alphabet beyond the
  newline, the colon and the LIKE wildcards.
\<close>

definition newline :: char where
  "newline = CHR 0x0A"

text \<open>\<open>content.split('\n')\<close>: never the empty list, one more element than newlines.\<close>

fun split_nl :: "string \<Rightarrow> string list" where
  "split_nl [] = [[]]"
| "split_nl (c # cs) =
     (if c = newline then [] # split_nl cs
      else (case split_nl cs of [] \<Rightarrow> [[c]] | l # ls \<Rightarrow> (c # l) # ls))"

text \<open>\<open>'\n'.join(parts)\<close>.\<close>

fun join_nl :: "string list \<Rightarrow> string" where
  "join_nl [] = []"
| "join_nl [l] = l"
| "join_nl (l # m # ls) = l @ newline # join_nl (m # ls)"

text \<open>The decimal rendering of a non-negative integer inside an f-string.\<close>

definition digit_char :: "nat \<Rightarrow> char" where
  "digit_char d = ''0123456789'' ! d"

fun str_nat :: "nat \<Rightarrow> string" where
  "str_nat n = (if n < 10 then [digit_char n] else str_nat (n div 10) @ [digit_char (n mod 10)])"

declare str_nat.simps [simp del]

section \<open>Chunker: \<open>TiDBVectorStore.chunk_code_file\<close>\<close>

record chunk =
  chunk_id :: string
  content :: string
  start_line :: int
  end_line :: int
  file_path :: string

text \<open>The local variables of the loop.\<close>

record chunker_state =
  chunks :: "chunk list"
  current_chunk :: "string list"
  current_size :: int
  chunk_num :: nat

definition chunker_init :: chunker_state where
  "chunker_init = \<lparr>chunks = [], current_chunk = [], current_size = 0, chunk_num = 0\<rparr>"

text \<open>
  One iteration of \<open>for line_num, line in enumerate(lines)\<close>; \<open>n_lines\<close> is
  \<open>len(lines)\<close>. The test \<open>if current_chunk\<close> is on the list of buffered lines.
\<close>

definition chunk_step :: "string \<Rightarrow> int \<Rightarrow> nat \<Rightarrow> nat \<times> string \<Rightarrow> chunker_state \<Rightarrow> chunker_state" where
  "chunk_step fp chunk_size n_lines p st =
     (case p of (line_num, line) \<Rightarrow>
        let cur = current_chunk st @ [line];
            sz = current_size st + (int (length line) + 1)
        in if sz \<ge> chunk_size \<or> int line_num = int n_lines - 1 then
             (if cur \<noteq> [] then
                \<lparr>chunks = chunks st @
                     [\<lparr>chunk_id = ''chunk_'' @ str_nat (chunk_num st),
                       content = join_nl cur,
                       start_line = int line_num - int (length cur) + 1,
                       end_line = int line_num,
                       file_path = fp\<rparr>],
                 current_chunk = [], current_size = 0, chunk_num = chunk_num st + 1\<rparr>
              else st\<lparr>current_chunk := cur, current_size := sz\<rparr>)
           else st\<lparr>current_chunk := cur, current_size := sz\<rparr>)"

definition chunk_code_file :: "string \<Rightarrow> string \<Rightarrow> int \<Rightarrow> chunk list" where
  "chunk_code_file src fp chunk_size =
     (let lines = split_nl src
      in chunks (fold (chunk_step fp chunk_size (length lines)) (enumerate 0 lines) chunker_init))"

subsection \<open>The shape of the chunker's output\<close>

text \<open>
  The chunks built from a partition of the lines into consecutive groups: group number
  \<open>j\<close> starting at line \<open>off\<close>. Used to describe what the loop computes.
\<close>

fun group_chunks :: "string \<Rightarrow> nat \<Rightarrow> nat \<Rightarrow> string list list \<Rightarrow> chunk list" where
  "group_chunks fp j off [] = []"
| "group_chunks fp j off (g # gs) =
     \<lparr>chunk_id = ''chunk_'' @ str_nat j, content = join_nl g, start_line = int off,
      end_line = int off + int (length g) - 1, file_path = fp\<rparr>
     # group_chunks fp (Suc j) (off + length g) gs"

text \<open>
  The loop invariant after \<open>k\<close> lines: the closed groups and the open buffer together
  are the first \<open>k\<close> lines, and the buffer is empty once the last line is consumed.
\<close>

definition chunker_inv :: "string \<Rightarrow> string list \<Rightarrow> nat \<Rightarrow> chunker_state \<Rightarrow> string list list \<Rightarrow> bool" where
  "chunker_inv fp lines k st gs \<longleftrightarrow>
     chunks st = group_chunks fp 0 0 gs \<and> chunk_num st = length gs \<and>
     (\<forall>g \<in> set gs. g \<noteq> []) \<and> concat gs @ current_chunk st = take k lines \<and>
     (k = length lines \<and> 0 < k \<longrightarrow> current_chunk st = [])"

section \<open>Shared types\<close>

text \<open>
  Exceptions that the modelled code can raise. Floats are modelled as \<open>real\<close>: the
  results below are about which arithmetic expression a score is, and about order.
\<close>

datatype py_exception = ModelUnavailable | IndexError | StopIteration

text \<open>
  \<open>KeyError(key)\<close>, raised by reading a key that a dict lacks; \<open>str\<close> of it is
  the key in single quotes.
\<close>

datatype key_error = KeyError string

fun str_key_error :: "key_error \<Rightarrow> string" where
  "str_key_error (KeyError k) = [CHR 0x27] @ k @ [CHR 0x27]"

type_synonym vec = "real list"

text \<open>\<open>d.get(key, default)\<close> on an optional entry.\<close>

definition dict_get :: "'a \<Rightarrow> 'a option \<Rightarrow> 'a" where
  "dict_get dflt x = (case x of None \<Rightarrow> dflt | Some v \<Rightarrow> v)"

text \<open>
  The collaborators outside the repository: \<open>hashlib.md5(...).hexdigest()\<close>, the
  sentence-transformer's \<open>encode\<close> on a batch (\<open>None\<close> when it raises), and the
  database's cosine distance.
\<close>

record deps =
  md5_hex :: "string \<Rightarrow> string"
  encode :: "string list \<Rightarrow> vec list option"
  cosine_distance :: "vec \<Rightarrow> vec \<Rightarrow> real"

section \<open>Corpus store: table \<open>code_embeddings\<close>\<close>

text \<open>The JSON object stored in \<open>chunk_metadata\<close>.\<close>

record metadata =
  md_language :: string
  md_start_line :: int
  md_end_line :: int
  md_chunk_size :: nat
  md_file_size :: nat

text \<open>
  One row of \<open>CodeEmbedding\<close>. The auto-increment \<open>id\<close> and \<open>created_at\<close> are left
  out: no modelled operation reads them. The table is the list of its rows in storage
  order; the database is taken to be reachable, and column length limits are not
  modelled.
\<close>

record code_embedding =
  repo_name :: string
  repo_url :: string
  row_file_path :: string
  row_chunk_id :: string
  row_content :: string
  embedding :: vec
  chunk_metadata :: "metadata option"

text \<open>
  The instance state of \<open>TiDBVectorStore\<close>: the table behind its session, the
  embedding cache (a dict, so an association list in insertion order), and a log of the
  batches handed to the embedding model.
\<close>

record tidb_vector_store =
  code_embeddings :: "code_embedding list"
  embedding_cache :: "(string \<times> vec) list"
  model_calls :: "string list list"

definition cache_max_size :: nat where
  "cache_max_size = 1000"

definition store_init :: tidb_vector_store where
  "store_init = \<lparr>code_embeddings = [], embedding_cache = [], model_calls = []\<rparr>"

section \<open>Embedder: \<open>TiDBVectorStore.embed_text\<close>\<close>

definition embed_text :: "deps \<Rightarrow> string \<Rightarrow> tidb_vector_store \<Rightarrow> (py_exception + vec) \<times> tidb_vector_store" where
  "embed_text D txt self =
     (let text_hash = md5_hex D txt
      in case map_of (embedding_cache self) text_hash of
           Some cached \<Rightarrow> (Inr cached, self)
         | None \<Rightarrow>
             (let self1 = self\<lparr>model_calls := model_calls self @ [[txt]]\<rparr>
              in case encode D [txt] of
                   None \<Rightarrow> (Inl ModelUnavailable, self1)
                 | Some [] \<Rightarrow> (Inl IndexError, self1)
                 | Some (embedding_list # _) \<Rightarrow>
                     if length (embedding_cache self1) \<ge> cache_max_size then
                       (case embedding_cache self1 of
                          [] \<Rightarrow> (Inl StopIteration, self1)
                        | oldest # rest \<Rightarrow>
                            (Inr embedding_list,
                             self1\<lparr>embedding_cache := rest @ [(text_hash, embedding_list)]\<rparr>))
                     else
                       (Inr embedding_list,
                        self1\<lparr>embedding_cache :=
                                 embedding_cache self1 @ [(text_hash, embedding_list)]\<rparr>)))"

text \<open>A sequence of \<open>embed_text\<close> calls on one instance; the results are dropped.\<close>

fun embed_texts :: "deps \<Rightarrow> string list \<Rightarrow> tidb_vector_store \<Rightarrow> tidb_vector_store" where
  "embed_texts D [] self = self"
| "embed_texts D (t # ts) self = embed_texts D ts (snd (embed_text D t self))"

section \<open>Indexing: \<open>TiDBVectorStore.index_repository\<close> and \<open>get_repository_stats\<close>\<close>

record file_info =
  fi_path :: "string option"
  fi_content :: "string option"
  fi_language :: "string option"

record repo_data =
  rd_repo_name :: "string option"
  rd_github_url :: "string option"
  rd_files :: "file_info list option"

record index_result =
  ir_success :: bool
  ir_indexed_files :: nat
  ir_total_chunks :: nat
  ir_repo_name :: string

text \<open>The loop variables of \<open>index_repository\<close>: the session's pending rows and the counters.\<close>

record index_state =
  added :: "code_embedding list"
  indexed_count :: nat
  total_chunks :: nat
  calls :: "string list list"

definition make_row :: "string \<Rightarrow> string \<Rightarrow> string \<Rightarrow> string \<Rightarrow> string \<Rightarrow> chunk \<times> vec \<Rightarrow> code_embedding" where
  "make_row rname rurl fpath lang body p =
     (case p of (c, e) \<Rightarrow>
        \<lparr>repo_name = rname, repo_url = rurl, row_file_path = fpath,
         row_chunk_id = chunk_id c, row_content = content c, embedding = e,
         chunk_metadata = Some \<lparr>md_language = lang, md_start_line = start_line c,
                                md_end_line = end_line c, md_chunk_size = length (content c),
                                md_file_size = length body\<rparr>\<rparr>)"

text \<open>
  One iteration of \<open>for file_info in files\<close>. Empty content and content of more than
  100000 characters are skipped; a file whose batch the model fails on is skipped
  without being counted. Timing and printing are left out.
\<close>

definition index_file :: "deps \<Rightarrow> string \<Rightarrow> string \<Rightarrow> file_info \<Rightarrow> index_state \<Rightarrow> index_state" where
  "index_file D rname rurl fi st =
     (let fpath = dict_get [] (fi_path fi);
          body = dict_get [] (fi_content fi);
          lang = dict_get ''unknown'' (fi_language fi)
      in if body = [] \<or> length body > 100000 then st
         else
           (let cs = chunk_code_file body fpath 1000;
                chunk_contents = map content cs;
                st1 = st\<lparr>calls := calls st @ [chunk_contents]\<rparr>
            in case encode D chunk_contents of
                 None \<Rightarrow> st1
               | Some all_embeddings \<Rightarrow>
                   (let new = map (make_row rname rurl fpath lang body) (zip cs all_embeddings)
                    in st1\<lparr>added := added st1 @ new,
                           total_chunks := total_chunks st1 + length new,
                           indexed_count := indexed_count st1 + 1\<rparr>)))"

definition index_repository :: "deps \<Rightarrow> repo_data \<Rightarrow> tidb_vector_store \<Rightarrow> index_result \<times> tidb_vector_store" where
  "index_repository D rd self =
     (let rname = dict_get [] (rd_repo_name rd);
          rurl = dict_get [] (rd_github_url rd);
          fs = dict_get [] (rd_files rd);
          cleared = filter (\<lambda>r. repo_name r \<noteq> rname) (code_embeddings self);
          st = fold (index_file D rname rurl) fs
                 \<lparr>added = [], indexed_count = 0, total_chunks = 0, calls = []\<rparr>
      in (\<lparr>ir_success = True, ir_indexed_files = indexed_count st,
            ir_total_chunks = total_chunks st, ir_repo_name = rname\<rparr>,
          self\<lparr>code_embeddings := cleared @ added st,
                model_calls := model_calls self @ calls st\<rparr>))"

record repo_stats =
  st_total_chunks :: nat
  st_total_files :: nat
  st_avg_chunk_size :: nat

definition get_repository_stats :: "tidb_vector_store \<Rightarrow> string \<Rightarrow> repo_stats" where
  "get_repository_stats self rname =
     (let rows = filter (\<lambda>r. repo_name r = rname) (code_embeddings self)
      in \<lparr>st_total_chunks = length rows,
          st_total_files = length (remdups (map row_file_path rows)),
          st_avg_chunk_size = 0\<rparr>)"

section \<open>Retriever: \<open>vector_search\<close>, \<open>fulltext_search\<close>, \<open>hybrid_search\<close>\<close>

text \<open>
  A search result dict. Keys that a result may lack are options; \<open>metadata = None\<close> is
  the empty dict.
\<close>

record search_result =
  r_file_path :: string
  r_chunk_id :: string
  r_content :: string
  full_content :: "string option"
  r_metadata :: "metadata option"
  similarity_score :: "real option"
  relevance_score :: "real option"
  search_type :: "string option"
  combined_score :: "real option"

text \<open>\<open>ORDER BY distance LIMIT limit\<close> over the rows of the repository; ties keep storage order.\<close>

definition vector_query :: "deps \<Rightarrow> code_embedding list \<Rightarrow> string \<Rightarrow> vec \<Rightarrow> nat \<Rightarrow> code_embedding list" where
  "vector_query D tbl rname qv limit =
     take limit (sort_key (\<lambda>r. cosine_distance D (embedding r) qv)
                   (filter (\<lambda>r. repo_name r = rname) tbl))"

definition format_vector :: "deps \<Rightarrow> vec \<Rightarrow> code_embedding \<Rightarrow> search_result" where
  "format_vector D qv r =
     \<lparr>r_file_path = row_file_path r, r_chunk_id = row_chunk_id r,
      r_content = (if length (row_content r) > 1000 then take 1000 (row_content r) @ ''...''
                   else row_content r),
      full_content = Some (row_content r),
      r_metadata = chunk_metadata r,
      similarity_score = Some (1 - cosine_distance D (embedding r) qv),
      relevance_score = None, search_type = None, combined_score = None\<rparr>"

text \<open>Any exception, here a failing embedder, is caught and gives the empty list.\<close>

definition vector_search :: "deps \<Rightarrow> string \<Rightarrow> string \<Rightarrow> nat \<Rightarrow> tidb_vector_store \<Rightarrow> search_result list \<times> tidb_vector_store" where
  "vector_search D query rname limit self =
     (case embed_text D query self of
        (Inl _, self1) \<Rightarrow> ([], self1)
      | (Inr query_embedding, self1) \<Rightarrow>
          (map (format_vector D query_embedding)
             (vector_query D (code_embeddings self1) rname query_embedding limit), self1))"

text \<open>
  \<open>CodeEmbedding.content.contains(query)\<close> is the SQL test
  \<open>content LIKE '%' || query || '%'\<close> ("Use LIKE for simple text search"), and the
  query is not escaped. \<open>like_match pattern s\<close> is SQL's LIKE under a binary collation:
  \<open>%\<close> stands for any run of characters, \<open>_\<close> for any one character, a backslash
  makes the next pattern character literal, every other character stands for itself.
\<close>

definition backslash :: char where
  "backslash = CHR 0x5C"

fun like_match :: "string \<Rightarrow> string \<Rightarrow> bool" where
  "like_match [] s = (s = [])"
| "like_match (p # ps) s =
     (if p = CHR ''%'' then
        (like_match ps s \<or> (case s of [] \<Rightarrow> False | _ # s' \<Rightarrow> like_match (p # ps) s'))
      else if p = CHR ''_'' then
        (case s of [] \<Rightarrow> False | _ # s' \<Rightarrow> like_match ps s')
      else if p = backslash then
        (case ps of
           [] \<Rightarrow> s = [backslash]
         | q # qs \<Rightarrow> (case s of [] \<Rightarrow> False | c # s' \<Rightarrow> c = q \<and> like_match qs s'))
      else (case s of [] \<Rightarrow> False | c # s' \<Rightarrow> c = p \<and> like_match ps s'))"

definition sql_contains :: "string \<Rightarrow> string \<Rightarrow> bool" where
  "sql_contains s query = like_match (''%'' @ query @ ''%'') s"

definition format_fulltext :: "code_embedding \<Rightarrow> search_result" where
  "format_fulltext r =
     \<lparr>r_file_path = row_file_path r, r_chunk_id = row_chunk_id r,
      r_content = row_content r, full_content = None,
      r_metadata = chunk_metadata r,
      similarity_score = None, relevance_score = Some 1,
      search_type = None, combined_score = None\<rparr>"

definition text_query :: "code_embedding list \<Rightarrow> string \<Rightarrow> string \<Rightarrow> nat \<Rightarrow> code_embedding list" where
  "text_query tbl rname query limit =
     take limit (filter (\<lambda>r. repo_name r = rname \<and> sql_contains (row_content r) query) tbl)"

definition fulltext_search :: "string \<Rightarrow> string \<Rightarrow> nat \<Rightarrow> tidb_vector_store \<Rightarrow> search_result list" where
  "fulltext_search query rname limit self =
     map format_fulltext (text_query (code_embeddings self) rname query limit)"

text \<open>
  The dict \<open>combined_results\<close>, in insertion order. Assigning to a key that is present
  replaces the value where it stands; a new key goes to the end.
\<close>

fun dict_set :: "'k \<Rightarrow> 'v \<Rightarrow> ('k \<times> 'v) list \<Rightarrow> ('k \<times> 'v) list" where
  "dict_set k v [] = [(k, v)]"
| "dict_set k v ((k', v') # d) = (if k' = k then (k, v) # d else (k', v') # dict_set k v d)"

text \<open>The key \<open>f"{result['file_path']}:{result['chunk_id']}"\<close>.\<close>

definition result_key :: "search_result \<Rightarrow> string" where
  "result_key r = r_file_path r @ '':'' @ r_chunk_id r"

text \<open>One iteration of the loop over the vector results.\<close>

definition add_vector_result :: "search_result \<Rightarrow> key_error + (string \<times> search_result) list \<Rightarrow> key_error + (string \<times> search_result) list" where
  "add_vector_result r acc =
     (case acc of
        Inl e \<Rightarrow> Inl e
      | Inr d \<Rightarrow>
          (case similarity_score r of
             None \<Rightarrow> Inl (KeyError ''similarity_score'')
           | Some s \<Rightarrow>
               Inr (dict_set (result_key r)
                      (r\<lparr>search_type := Some ''vector'', combined_score := Some s\<rparr>) d)))"

text \<open>
  One iteration of the loop over the full-text results. For a key that is present, the
  entry's \<open>similarity_score\<close> is read, which a full-text entry does not have.
\<close>

definition add_fulltext_result :: "search_result \<Rightarrow> key_error + (string \<times> search_result) list \<Rightarrow> key_error + (string \<times> search_result) list" where
  "add_fulltext_result r acc =
     (case acc of
        Inl e \<Rightarrow> Inl e
      | Inr d \<Rightarrow>
          (case map_of d (result_key r) of
             Some entry \<Rightarrow>
               (case similarity_score entry of
                  None \<Rightarrow> Inl (KeyError ''similarity_score'')
                | Some s \<Rightarrow>
                    (case relevance_score r of
                       None \<Rightarrow> Inl (KeyError ''relevance_score'')
                     | Some rel \<Rightarrow>
                         Inr (dict_set (result_key r)
                                (entry\<lparr>combined_score := Some ((s + rel / 10) / 2),
                                       search_type := Some ''hybrid''\<rparr>) d)))
           | None \<Rightarrow>
               (case relevance_score r of
                  None \<Rightarrow> Inl (KeyError ''relevance_score'')
                | Some rel \<Rightarrow>
                    Inr (dict_set (result_key r)
                           (r\<lparr>search_type := Some ''fulltext'',
                              combined_score := Some (rel / 10)\<rparr>) d))))"

text \<open>
  \<open>sorted(values, key=combined_score, reverse=True)[:limit]\<close>: a stable sort, so equal
  scores keep the dict's order.
\<close>

definition sort_results :: "nat \<Rightarrow> search_result list \<Rightarrow> key_error + search_result list" where
  "sort_results limit vals =
     (if list_all (\<lambda>r. combined_score r \<noteq> None) vals then
        Inr (take limit (sort_key (\<lambda>r. - the (combined_score r)) vals))
      else Inl (KeyError ''combined_score''))"

definition hybrid_search :: "deps \<Rightarrow> string \<Rightarrow> string \<Rightarrow> nat \<Rightarrow> tidb_vector_store \<Rightarrow> (key_error + search_result list) \<times> tidb_vector_store" where
  "hybrid_search D query rname limit self =
     (case vector_search D query rname limit self of
        (vector_results, self1) \<Rightarrow>
          (let fulltext_results = fulltext_search query rname limit self1
           in case fold add_fulltext_result fulltext_results
                     (fold add_vector_result vector_results (Inr [])) of
                Inl e \<Rightarrow> (Inl e, self1)
              | Inr combined_results \<Rightarrow> (sort_results limit (map snd combined_results), self1)))"

section \<open>Tools: \<open>CodeIndexerTool\<close>, \<open>CodeSearchTool\<close>, \<open>RAGQueryTool\<close>\<close>

text \<open>
  The dict returned by \<open>CodeIndexerTool._run\<close>. A tool holds \<open>_vector_store\<close>, which
  is \<open>None\<close> when the store could not be initialised.
\<close>

record indexer_response =
  ix_success :: bool
  ix_message :: "string option"
  ix_error :: "string option"
  ix_existing_stats :: "repo_stats option"
  ix_indexed_files :: nat
  ix_total_chunks :: nat
  ix_reindexed :: "bool option"

definition CodeIndexerTool_run :: "deps \<Rightarrow> repo_data \<Rightarrow> bool \<Rightarrow> tidb_vector_store option \<Rightarrow> indexer_response \<times> tidb_vector_store option" where
  "CodeIndexerTool_run D rd force_reindex vstore =
     (case vstore of
        None \<Rightarrow>
          (\<lparr>ix_success = False, ix_message = None,
            ix_error = Some ''TiDB Vector Store not available'', ix_existing_stats = None,
            ix_indexed_files = 0, ix_total_chunks = 0, ix_reindexed = None\<rparr>, None)
      | Some self \<Rightarrow>
          (let rname = dict_get ''unknown_repo'' (rd_repo_name rd);
               existing_stats = get_repository_stats self rname
           in if \<not> force_reindex \<and> st_total_chunks existing_stats > 0 then
                (\<lparr>ix_success = True,
                  ix_message = Some (''Repository '' @ [CHR 0x27] @ rname @ [CHR 0x27] @ '' already indexed''),
                  ix_error = None, ix_existing_stats = Some existing_stats,
                  ix_indexed_files = st_total_files existing_stats,
                  ix_total_chunks = st_total_chunks existing_stats,
                  ix_reindexed = Some False\<rparr>, Some self)
              else
                (case index_repository D rd self of
                   (res, self1) \<Rightarrow>
                     if ir_success res then
                       (\<lparr>ix_success = True,
                         ix_message = Some (''Successfully indexed repository '' @ [CHR 0x27] @ rname @ [CHR 0x27]),
                         ix_error = None, ix_existing_stats = None,
                         ix_indexed_files = ir_indexed_files res,
                         ix_total_chunks = ir_total_chunks res,
                         ix_reindexed = Some force_reindex\<rparr>, Some self1)
                     else
                       (\<lparr>ix_success = False, ix_message = None,
                         ix_error = Some ''Failed to index repository'', ix_existing_stats = None,
                         ix_indexed_files = 0, ix_total_chunks = 0, ix_reindexed = None\<rparr>,
                        Some self1))))"

text \<open>The dict returned by \<open>CodeSearchTool._run\<close>.\<close>

record search_response =
  sr_success :: bool
  sr_error :: "string option"
  sr_results :: "search_result list"

text \<open>
  The presentation step of \<open>CodeSearchTool._run\<close>: \<open>content\<close> is cut to 500
  characters, and \<open>full_content\<close> is set from the result's \<open>content\<close> key.
\<close>

definition process_result :: "string \<Rightarrow> search_result \<Rightarrow> search_result" where
  "process_result stype r =
     \<lparr>r_file_path = r_file_path r, r_chunk_id = r_chunk_id r,
      r_content = (if length (r_content r) > 500 then take 500 (r_content r) @ ''...''
                   else r_content r),
      full_content = Some (r_content r),
      r_metadata = r_metadata r,
      similarity_score = similarity_score r,
      relevance_score = relevance_score r,
      search_type = Some (dict_get stype (search_type r)),
      combined_score = combined_score r\<rparr>"

definition CodeSearchTool_run :: "deps \<Rightarrow> string \<Rightarrow> string \<Rightarrow> string \<Rightarrow> nat \<Rightarrow> tidb_vector_store option \<Rightarrow> search_response \<times> tidb_vector_store option" where
  "CodeSearchTool_run D query rname stype limit vstore =
     (case vstore of
        None \<Rightarrow>
          (\<lparr>sr_success = False, sr_error = Some ''TiDB Vector Store not available'',
            sr_results = []\<rparr>, None)
      | Some self \<Rightarrow>
          if stype = ''vector'' then
            (case vector_search D query rname limit self of
               (rs, self1) \<Rightarrow>
                 (\<lparr>sr_success = True, sr_error = None,
                   sr_results = map (process_result stype) rs\<rparr>, Some self1))
          else if stype = ''fulltext'' then
            (\<lparr>sr_success = True, sr_error = None,
              sr_results = map (process_result stype) (fulltext_search query rname limit self)\<rparr>,
             Some self)
          else if stype = ''hybrid'' then
            (case hybrid_search D query rname limit self of
               (Inl e, self1) \<Rightarrow>
                 (\<lparr>sr_success = False, sr_error = Some (''Search failed: '' @ str_key_error e),
                   sr_results = []\<rparr>, Some self1)
             | (Inr rs, self1) \<Rightarrow>
                 (\<lparr>sr_success = True, sr_error = None,
                   sr_results = map (process_result stype) rs\<rparr>, Some self1))
          else
            (\<lparr>sr_success = False, sr_error = Some (''Invalid search type: '' @ stype),
              sr_results = []\<rparr>, Some self))"

text \<open>
  One entry of \<open>context_parts\<close> in \<open>RAGQueryTool._run\<close>, before it is laid out as
  text: the file path, the line range and language read from the metadata, and the
  chunk's \<open>full_content\<close>.
\<close>

record context_block =
  cb_file_path :: string
  cb_start_line :: "int option"
  cb_end_line :: "int option"
  cb_language :: string
  cb_content :: string

definition context_of :: "search_result \<Rightarrow> key_error + context_block" where
  "context_of c =
     (case full_content c of
        None \<Rightarrow> Inl (KeyError ''full_content'')
      | Some body \<Rightarrow>
          Inr \<lparr>cb_file_path = r_file_path c,
               cb_start_line = map_option md_start_line (r_metadata c),
               cb_end_line = map_option md_end_line (r_metadata c),
               cb_language = (case r_metadata c of None \<Rightarrow> ''unknown'' | Some m \<Rightarrow> md_language m),
               cb_content = body\<rparr>)"

fun collect :: "('a \<Rightarrow> key_error + 'b) \<Rightarrow> 'a list \<Rightarrow> key_error + 'b list" where
  "collect f [] = Inr []"
| "collect f (x # xs) =
     (case f x of
        Inl e \<Rightarrow> Inl e
      | Inr y \<Rightarrow> (case collect f xs of Inl e \<Rightarrow> Inl e | Inr ys \<Rightarrow> Inr (y # ys)))"

text \<open>
  Steps 1 and 2 of \<open>RAGQueryTool._run\<close>: the hybrid search with \<open>limit=8\<close>, the
  "nothing found" answer for an empty result list, and otherwise the context blocks of
  the top 5 results. A failed search and any exception give the failure answer. The call
  of the language model on the context is outside the model.
\<close>

datatype rag_outcome = RagFailure | RagNothingFound | RagContext "context_block list"

definition rag_context :: "deps \<Rightarrow> string \<Rightarrow> string \<Rightarrow> tidb_vector_store option \<Rightarrow> rag_outcome \<times> tidb_vector_store option" where
  "rag_context D question rname vstore =
     (case CodeSearchTool_run D question rname ''hybrid'' 8 vstore of
        (search_result, vstore1) \<Rightarrow>
          if \<not> sr_success search_result then (RagFailure, vstore1)
          else if sr_results search_result = [] then (RagNothingFound, vstore1)
          else
            (case collect context_of (take 5 (sr_results search_result)) of
               Inl e \<Rightarrow> (RagFailure, vstore1)
             | Inr context_parts \<Rightarrow> (RagContext context_parts, vstore1)))"

section \<open>Auxiliary notions for the results\<close>

text \<open>\<open>s.startswith(q)\<close> and \<open>q in s\<close>: the literal, case-sensitive substring test.\<close>

fun is_prefix :: "string \<Rightarrow> string \<Rightarrow> bool" where
  "is_prefix [] s = True"
| "is_prefix (c # cs) [] = False"
| "is_prefix (c # cs) (d # ds) = (c = d \<and> is_prefix cs ds)"

fun is_substring :: "string \<Rightarrow> string \<Rightarrow> bool" where
  "is_substring q [] = (q = [])"
| "is_substring q (c # s) = (is_prefix q (c # s) \<or> is_substring q s)"

text \<open>A query without the characters that LIKE treats specially.\<close>

definition wildcard_free :: "string \<Rightarrow> bool" where
  "wildcard_free q = list_all (\<lambda>c. c \<noteq> CHR ''%'' \<and> c \<noteq> CHR ''_'' \<and> c \<noteq> backslash) q"

text \<open>
  The merge of hybrid search in the words of the specification, by the key
  \<open>(file_path, chunk_id)\<close>: a vector result also found by full-text search is tagged
  \<open>hybrid\<close> with the average score, any other vector result is tagged \<open>vector\<close>
  with its similarity, and a full-text result that is no vector result is tagged
  \<open>fulltext\<close> with a tenth of its relevance; the merged list is sorted by descending
  score and cut to \<open>limit\<close>.
\<close>

definition key_of :: "search_result \<Rightarrow> string \<times> string" where
  "key_of r = (r_file_path r, r_chunk_id r)"

definition tag_vector :: "search_result \<Rightarrow> search_result" where
  "tag_vector v = v\<lparr>search_type := Some ''vector'', combined_score := similarity_score v\<rparr>"

definition tag_fulltext :: "search_result \<Rightarrow> search_result" where
  "tag_fulltext f = f\<lparr>search_type := Some ''fulltext'',
                       combined_score := Some (the (relevance_score f) / 10)\<rparr>"

definition tag_hybrid :: "search_result \<Rightarrow> search_result \<Rightarrow> search_result" where
  "tag_hybrid f v = v\<lparr>search_type := Some ''hybrid'',
       combined_score := Some ((the (similarity_score v) + the (relevance_score f) / 10) / 2)\<rparr>"

definition hybrid_merge_spec :: "search_result list \<Rightarrow> search_result list \<Rightarrow> search_result list" where
  "hybrid_merge_spec vrs frs =
     map (\<lambda>v. case find (\<lambda>f. key_of f = key_of v) frs of
                None \<Rightarrow> tag_vector v
              | Some f \<Rightarrow> tag_hybrid f v) vrs
     @ map tag_fulltext (filter (\<lambda>f. key_of f \<notin> set (map key_of vrs)) frs)"

definition hybrid_search_spec :: "nat \<Rightarrow> search_result list \<Rightarrow> search_result list \<Rightarrow> search_result list" where
  "hybrid_search_spec limit vrs frs =
     take limit (sort_key (\<lambda>r. - the (combined_score r)) (hybrid_merge_spec vrs frs))"

text \<open>
  The identity invariant of the data model on the rows of one repository:
  \<open>(file_path, chunk_id)\<close> is unique, and chunk ids, which the chunker writes as
  \<open>chunk_N\<close>, hold no colon.
\<close>

definition corpus_keys_ok :: "code_embedding list \<Rightarrow> string \<Rightarrow> bool" where
  "corpus_keys_ok tbl rname \<longleftrightarrow>
     distinct (map (\<lambda>r. (row_file_path r, row_chunk_id r)) (filter (\<lambda>r. repo_name r = rname) tbl)) \<and>
     list_all (\<lambda>r. CHR '':'' \<notin> set (row_chunk_id r)) (filter (\<lambda>r. repo_name r = rname) tbl)"

text \<open>What the loop over the full-text results makes of a dict entry.\<close>

definition boost :: "search_result list \<Rightarrow> string \<times> search_result \<Rightarrow> string \<times> search_result" where
  "boost frs p = (case find (\<lambda>f. result_key f = fst p) frs of
                    None \<Rightarrow> p | Some f \<Rightarrow> (fst p, tag_hybrid f (snd p)))"

text \<open>Reading a decimal rendering back, to tell chunk ids apart.\<close>

definition digit_val :: "char \<Rightarrow> nat" where
  "digit_val c = length (takeWhile (\<lambda>d. d \<noteq> c) ''0123456789'')"

definition digits_val :: "string \<Rightarrow> nat" where
  "digits_val s = foldl (\<lambda>a c. 10 * a + digit_val c) 0 s"

text \<open>
  The invariant of the loop of \<open>index_repository\<close> behind the identity invariant: the
  pending rows have distinct keys, colon-free chunk ids and paths among those seen.
\<close>

definition keys_inv :: "index_state \<Rightarrow> string set \<Rightarrow> bool" where
  "keys_inv st P \<longleftrightarrow>
     distinct (map (\<lambda>r. (row_file_path r, row_chunk_id r)) (added st)) \<and>
     (\<forall>r \<in> set (added st). row_file_path r \<in> P \<and> CHR '':'' \<notin> set (row_chunk_id r))"

text \<open>
  What one input file contributes to the corpus, in the words of the specification: a
  file with empty content or more than 100000 characters contributes nothing; any other
  file contributes one row per chunk of its content, carrying the repository, the file's
  path, the chunk's id and content, its vector and its metadata.
\<close>

definition indexable :: "file_info \<Rightarrow> bool" where
  "indexable fi \<longleftrightarrow>
     dict_get [] (fi_content fi) \<noteq> [] \<and> length (dict_get [] (fi_content fi)) \<le> 100000"

definition file_chunks :: "file_info \<Rightarrow> chunk list" where
  "file_chunks fi = chunk_code_file (dict_get [] (fi_content fi)) (dict_get [] (fi_path fi)) 1000"

definition file_rows :: "deps \<Rightarrow> string \<Rightarrow> string \<Rightarrow> file_info \<Rightarrow> code_embedding list" where
  "file_rows D rname rurl fi =
     (if indexable fi then
        (case encode D (map content (file_chunks fi)) of
           None \<Rightarrow> []
         | Some es \<Rightarrow>
             map (\<lambda>(c, e).
                    \<lparr>repo_name = rname, repo_url = rurl,
                     row_file_path = dict_get [] (fi_path fi),
                     row_chunk_id = chunk_id c, row_content = content c, embedding = e,
                     chunk_metadata =
                       Some \<lparr>md_language = dict_get ''unknown'' (fi_language fi),
                             md_start_line = start_line c, md_end_line = end_line c,
                             md_chunk_size = length (content c),
                             md_file_size = length (dict_get [] (fi_content fi))\<rparr>\<rparr>)
               (zip (file_chunks fi) es))
      else [])"

text \<open>The model returns one vector for every chunk of every indexed file.\<close>

definition one_vector_each :: "deps \<Rightarrow> file_info list \<Rightarrow> bool" where
  "one_vector_each D fs =
     list_all (\<lambda>fi. case encode D (map content (file_chunks fi)) of
                       None \<Rightarrow> False
                     | Some es \<Rightarrow> length es = length (file_chunks fi))
       (filter indexable fs)"

text \<open>
  A small concrete setting for evaluating the model: the hash is the identity, the model
  embeds every text as \<open>[1]\<close>, and the distance of two vectors is the distance of their
  sums.
\<close>

definition demo_deps :: deps where
  "demo_deps = \<lparr>md5_hex = (\<lambda>s. s), encode = (\<lambda>ts. Some (map (\<lambda>t. [1]) ts)),
                cosine_distance = (\<lambda>a b. \<bar>sum_list a - sum_list b\<bar>)\<rparr>"

definition demo_row :: "string \<Rightarrow> string \<Rightarrow> string \<Rightarrow> real \<Rightarrow> code_embedding" where
  "demo_row fp cid body x =
     \<lparr>repo_name = ''demo'', repo_url = [], row_file_path = fp, row_chunk_id = cid,
      row_content = body, embedding = [x], chunk_metadata = None\<rparr>"

definition demo_store :: tidb_vector_store where
  "demo_store =
     \<lparr>code_embeddings = [demo_row ''a.py'' ''chunk_0'' ''abc'' (6 / 5), demo_row ''b.py'' ''chunk_0'' ''xyz'' 1],
      embedding_cache = [], model_calls = []\<rparr>"

text \<open>A cache at capacity: 1000 entries, oldest first.\<close>

definition full_cache :: "(string \<times> vec) list" where
  "full_cache = map (\<lambda>n. (replicate n CHR ''a'', [0])) [0..<1000]"

text \<open>
  A repository with one file that is a single line of 1001 characters, indexed into a new
  store: the chunker closes the line as one chunk longer than 1000 characters.
\<close>

definition long_line :: string where
  "long_line = replicate 1001 CHR ''x''"

definition long_repo :: repo_data where
  "long_repo =
     \<lparr>rd_repo_name = Some ''demo'', rd_github_url = None,
      rd_files = Some [\<lparr>fi_path = Some ''a.py'', fi_content = Some long_line,
                        fi_language = Some ''python''\<rparr>]\<rparr>"

definition long_store :: tidb_vector_store where
  "long_store = snd (index_repository demo_deps long_repo store_init)"

text \<open>Three files to index and one empty file, for a repository that is already indexed.\<close>

definition todo_repo :: repo_data where
  "todo_repo =
     \<lparr>rd_repo_name = Some ''demo'', rd_github_url = Some ''u'',
      rd_files = Some
        [\<lparr>fi_path = Some ''a.py'', fi_content = Some ''TODO fix'', fi_language = Some ''python''\<rparr>,
         \<lparr>fi_path = Some ''e.py'', fi_content = Some [], fi_language = Some ''python''\<rparr>,
         \<lparr>fi_path = Some ''b.py'', fi_content = Some ''print'', fi_language = Some ''python''\<rparr>,
         \<lparr>fi_path = Some ''c.py'', fi_content = Some ''pass'', fi_language = None\<rparr>]\<rparr>"

text \<open>
  A setting where the embedding of a text is its length, and a repository in which the
  path \<open>a.py\<close> is listed twice, indexed into a new store.
\<close>

definition length_deps :: deps where
  "length_deps = \<lparr>md5_hex = (\<lambda>s. s), encode = (\<lambda>ts. Some (map (\<lambda>t. [real (length t)]) ts)),
                  cosine_distance = (\<lambda>a b. \<bar>sum_list a - sum_list b\<bar>)\<rparr>"

definition dup_repo :: repo_data where
  "dup_repo =
     \<lparr>rd_repo_name = Some ''demo'', rd_github_url = None,
      rd_files = Some
        [\<lparr>fi_path = Some ''b.py'', fi_content = Some ''alpha'', fi_language = Some ''python''\<rparr>,
         \<lparr>fi_path = Some ''c.py'', fi_content = Some ''beta'', fi_language = Some ''python''\<rparr>,
         \<lparr>fi_path = Some ''a.py'', fi_content = Some ''TODO one'', fi_language = Some ''python''\<rparr>,
         \<lparr>fi_path = Some ''a.py'', fi_content = Some ''TODO two'', fi_language = Some ''python''\<rparr>]\<rparr>"

definition dup_store :: tidb_vector_store where
  "dup_store = snd (index_repository length_deps dup_repo store_init)"

section \<open>Chunker: results\<close>

subsection \<open>Splitting and joining\<close>

lemma split_nl_nonempty: "split_nl s \<noteq> []"
  by (induction s) (auto split: list.splits)

lemma join_nl_Cons: "ls \<noteq> [] \<Longrightarrow> join_nl (l # ls) = l @ newline # join_nl ls"
  by (cases ls) auto

lemma join_split_nl: "join_nl (split_nl s) = s"
proof (induction s)
  case Nil
  then show ?case by simp
next
  case (Cons c cs)
  show ?case
  proof (cases "c = newline")
    case True
    then show ?thesis using Cons split_nl_nonempty[of cs] by (simp add: join_nl_Cons)
  next
    case False
    obtain l ls where sp: "split_nl cs = l # ls"
      using split_nl_nonempty[of cs] by (cases "split_nl cs") auto
    show ?thesis using False Cons sp by (cases ls) auto
  qed
qed

lemma join_nl_append:
  "xs \<noteq> [] \<Longrightarrow> ys \<noteq> [] \<Longrightarrow> join_nl (xs @ ys) = join_nl xs @ newline # join_nl ys"
proof (induction xs)
  case Nil
  then show ?case by simp
next
  case (Cons x xs)
  show ?case
  proof (cases "xs = []")
    case True
    then show ?thesis using Cons.prems by (simp add: join_nl_Cons)
  next
    case False
    then show ?thesis using Cons by (simp add: join_nl_Cons)
  qed
qed

lemma join_nl_groups:
  "\<forall>g \<in> set gs. g \<noteq> [] \<Longrightarrow> join_nl (map join_nl gs) = join_nl (concat gs)"
proof (induction gs)
  case Nil
  then show ?case by simp
next
  case (Cons g gs)
  show ?case
  proof (cases "gs = []")
    case True
    then show ?thesis by simp
  next
    case False
    then have ne: "concat gs \<noteq> []" using Cons.prems by (cases gs) auto
    have "join_nl (map join_nl (g # gs)) = join_nl g @ newline # join_nl (map join_nl gs)"
      using False by (simp add: join_nl_Cons)
    also have "\<dots> = join_nl g @ newline # join_nl (concat gs)"
      using Cons by simp
    also have "\<dots> = join_nl (g @ concat gs)"
      using ne Cons.prems by (simp add: join_nl_append)
    finally show ?thesis by simp
  qed
qed

subsection \<open>The loop invariant\<close>

lemma group_chunks_snoc:
  "group_chunks fp j off (gs @ [g]) =
     group_chunks fp j off gs @
       [\<lparr>chunk_id = ''chunk_'' @ str_nat (j + length gs), content = join_nl g,
         start_line = int (off + length (concat gs)),
         end_line = int (off + length (concat gs)) + int (length g) - 1, file_path = fp\<rparr>]"
  by (induction gs arbitrary: j off) (auto simp: add.assoc)

lemma chunker_inv_init: "chunker_inv fp lines 0 chunker_init []"
  by (simp add: chunker_inv_def chunker_init_def)

lemma chunker_inv_step:
  assumes inv: "chunker_inv fp lines k st gs" and k: "k < length lines"
  shows "\<exists>gs'. chunker_inv fp lines (Suc k) (chunk_step fp chunk_size (length lines) (k, lines ! k) st) gs'"
proof -
  let ?cur = "current_chunk st @ [lines ! k]"
  let ?sz = "current_size st + (int (length (lines ! k)) + 1)"
  have tk: "take (Suc k) lines = concat gs @ ?cur"
    using inv k by (simp add: chunker_inv_def take_Suc_conv_app_nth)
  have len: "length (concat gs) + length (current_chunk st) = k"
  proof -
    have "length (concat gs @ current_chunk st) = length (take k lines)"
      using inv by (simp add: chunker_inv_def)
    then show ?thesis using k by simp
  qed
  show ?thesis
  proof (cases "?sz \<ge> chunk_size \<or> int k = int (length lines) - 1")
    case True
    have "chunker_inv fp lines (Suc k) (chunk_step fp chunk_size (length lines) (k, lines ! k) st) (gs @ [?cur])"
      using inv True tk len
      by (auto simp: chunker_inv_def chunk_step_def Let_def group_chunks_snoc)
    then show ?thesis ..
  next
    case False
    then have "Suc k \<noteq> length lines" by auto
    then have "chunker_inv fp lines (Suc k) (chunk_step fp chunk_size (length lines) (k, lines ! k) st) gs"
      using inv False tk
      by (auto simp: chunker_inv_def chunk_step_def Let_def)
    then show ?thesis ..
  qed
qed

lemma chunker_run_inv:
  "k \<le> length lines \<Longrightarrow>
   \<exists>gs. chunker_inv fp lines k
     (fold (chunk_step fp chunk_size (length lines)) (enumerate 0 (take k lines)) chunker_init) gs"
proof (induction k)
  case 0
  then show ?case using chunker_inv_init by auto
next
  case (Suc k)
  then have k: "k < length lines" by simp
  from Suc obtain gs where inv: "chunker_inv fp lines k
     (fold (chunk_step fp chunk_size (length lines)) (enumerate 0 (take k lines)) chunker_init) gs"
    by auto
  have en: "enumerate 0 (take (Suc k) lines) = enumerate 0 (take k lines) @ [(k, lines ! k)]"
    using k by (simp add: take_Suc_conv_app_nth enumerate_append_eq min_def)
  show ?case using chunker_inv_step[OF inv k] by (simp add: en)
qed

lemma chunk_code_file_groups:
  "\<exists>gs. chunk_code_file src fp chunk_size = group_chunks fp 0 0 gs \<and>
        (\<forall>g \<in> set gs. g \<noteq> []) \<and> concat gs = split_nl src"
proof -
  let ?lines = "split_nl src"
  have pos: "0 < length ?lines" using split_nl_nonempty[of src] by simp
  obtain gs where inv: "chunker_inv fp ?lines (length ?lines)
     (fold (chunk_step fp chunk_size (length ?lines)) (enumerate 0 ?lines) chunker_init) gs"
    using chunker_run_inv[of "length ?lines" "?lines" fp chunk_size] by auto
  then show ?thesis using pos
    by (auto simp: chunker_inv_def chunk_code_file_def Let_def)
qed

lemma length_group_chunks: "length (group_chunks fp j off gs) = length gs"
  by (induction gs arbitrary: j off) auto

lemma group_chunks_nth:
  "i < length gs \<Longrightarrow>
   group_chunks fp j off gs ! i =
     \<lparr>chunk_id = ''chunk_'' @ str_nat (j + i), content = join_nl (gs ! i),
      start_line = int (off + length (concat (take i gs))),
      end_line = int (off + length (concat (take i gs))) + int (length (gs ! i)) - 1,
      file_path = fp\<rparr>"
proof (induction gs arbitrary: i j off)
  case Nil
  then show ?case by simp
next
  case (Cons g gs)
  show ?case
  proof (cases i)
    case 0
    then show ?thesis by simp
  next
    case (Suc i')
    then show ?thesis using Cons by (simp add: add.assoc)
  qed
qed

lemma map_content_group_chunks: "map content (group_chunks fp j off gs) = map join_nl gs"
  by (induction gs arbitrary: j off) auto

lemma concat_nth_slice:
  assumes "i < length gs"
  shows "take (length (gs ! i)) (drop (length (concat (take i gs))) (concat gs)) = gs ! i"
proof -
  have "gs = take i gs @ gs ! i # drop (Suc i) gs"
    using assms by (rule id_take_nth_drop)
  then have "concat gs = concat (take i gs) @ gs ! i @ concat (drop (Suc i) gs)"
    by (metis concat.simps(2) concat_append)
  then show ?thesis by simp
qed

lemma length_concat_take_Suc:
  "i < length gs \<Longrightarrow> length (concat (take (Suc i) gs)) = length (concat (take i gs)) + length (gs ! i)"
  by (simp add: take_Suc_conv_app_nth)

subsection \<open>A text of one line\<close>

lemma split_nl_single: "newline \<notin> set s \<Longrightarrow> split_nl s = [s]"
  by (induction s) auto

lemma chunk_code_file_single:
  "newline \<notin> set s \<Longrightarrow>
   chunk_code_file s fp chunk_size =
     [\<lparr>chunk_id = ''chunk_0'', content = s, start_line = 0, end_line = 0, file_path = fp\<rparr>]"
  by (simp add: chunk_code_file_def split_nl_single chunk_step_def chunker_init_def
        enumerate_eq_zip str_nat.simps digit_char_def)

subsection \<open>Claims about the chunker\<close>

text \<open>
  C8. For the empty string the chunker does not return zero chunks: \<open>''.split('\n')\<close> is
  \<open>['']\<close>, the single line is also the last one, the buffer \<open>['']\<close> is a non-empty
  list, and one chunk with empty content covering lines 0 to 0 is produced, for every
  \<open>chunk_size\<close>.
\<close>

theorem chunk_code_file_empty:
  "chunk_code_file [] fp chunk_size =
     [\<lparr>chunk_id = ''chunk_0'', content = [], start_line = 0, end_line = 0, file_path = fp\<rparr>]"
  by (simp add: chunk_code_file_def chunk_step_def chunker_init_def enumerate_eq_zip
        str_nat.simps digit_char_def)

text \<open>
  C2, as stated, fails: the lines of one chunk are joined with newlines, but the newline
  between the last line of a chunk and the first line of the next is in no chunk. The
  text \<open>a\nb\<close> with \<open>chunk_size = 1\<close> gives the chunks \<open>a\<close> and \<open>b\<close>, whose
  concatenation is \<open>ab\<close>.
\<close>

theorem chunk_code_file_concat_counterexample:
  "concat (map content (chunk_code_file [CHR ''a'', newline, CHR ''b''] ''a.py'' 1))
     \<noteq> [CHR ''a'', newline, CHR ''b'']"
  by (simp add: chunk_code_file_def chunk_step_def chunker_init_def enumerate_eq_zip
        newline_def upt_rec)

text \<open>
  C2, amended: joining the chunks' contents, in order, with one newline between
  consecutive chunks reconstructs the original text exactly, for every text and every
  \<open>chunk_size\<close>.
\<close>

theorem chunk_code_file_join_roundtrip:
  "join_nl (map content (chunk_code_file src fp chunk_size)) = src"
proof -
  obtain gs where cs: "chunk_code_file src fp chunk_size = group_chunks fp 0 0 gs"
    and ne: "\<forall>g \<in> set gs. g \<noteq> []" and cover: "concat gs = split_nl src"
    using chunk_code_file_groups by blast
  have "join_nl (map content (chunk_code_file src fp chunk_size)) = join_nl (map join_nl gs)"
    by (simp add: cs map_content_group_chunks)
  also have "\<dots> = join_nl (concat gs)" using ne by (rule join_nl_groups)
  also have "\<dots> = src" by (simp add: cover join_split_nl)
  finally show ?thesis .
qed

text \<open>
  C3. For every text and chunk size the chunker returns at least one chunk; every chunk has
  \<open>start_line \<le> end_line\<close>; the first chunk starts at line 0, each further chunk starts
  one line after the previous one ends, and the last chunk ends at the last line, so the
  ranges are contiguous, do not overlap and cover the file in order; the content of a
  chunk is its range of lines; and the \<open>i\<close>-th chunk has the id \<open>chunk_i\<close>,
  counting from 0.
\<close>

theorem chunk_code_file_line_ranges:
  fixes src fp :: string and chunk_size :: int
  defines "cs \<equiv> chunk_code_file src fp chunk_size"
  shows "cs \<noteq> [] \<and>
    (\<forall>c \<in> set cs. start_line c \<le> end_line c) \<and>
    start_line (hd cs) = 0 \<and>
    end_line (last cs) = int (length (split_nl src)) - 1 \<and>
    (\<forall>i. Suc i < length cs \<longrightarrow> start_line (cs ! Suc i) = end_line (cs ! i) + 1) \<and>
    (\<forall>i < length cs. chunk_id (cs ! i) = ''chunk_'' @ str_nat i) \<and>
    (\<forall>i < length cs. content (cs ! i) =
        join_nl (take (nat (end_line (cs ! i) - start_line (cs ! i) + 1))
                   (drop (nat (start_line (cs ! i))) (split_nl src))))"
proof -
  obtain gs where cs: "cs = group_chunks fp 0 0 gs"
    and ne: "\<forall>g \<in> set gs. g \<noteq> []" and cover: "concat gs = split_nl src"
    unfolding cs_def using chunk_code_file_groups by blast
  have len: "length cs = length gs" by (simp add: cs length_group_chunks)
  have gne: "gs \<noteq> []" using cover split_nl_nonempty[of src] by auto
  have nth: "\<And>i. i < length gs \<Longrightarrow> cs ! i =
     \<lparr>chunk_id = ''chunk_'' @ str_nat i, content = join_nl (gs ! i),
      start_line = int (length (concat (take i gs))),
      end_line = int (length (concat (take i gs))) + int (length (gs ! i)) - 1,
      file_path = fp\<rparr>"
    using group_chunks_nth[of _ gs fp 0 0] by (simp add: cs)
  have pos: "\<And>i. i < length gs \<Longrightarrow> 0 < length (gs ! i)"
    using ne by (auto simp: in_set_conv_nth)
  have c1: "cs \<noteq> []" using len gne by auto
  have c2: "\<forall>c \<in> set cs. start_line c \<le> end_line c"
  proof
    fix c assume "c \<in> set cs"
    then obtain i where i: "i < length gs" and c: "c = cs ! i"
      using len by (auto simp: in_set_conv_nth)
    show "start_line c \<le> end_line c" using pos[OF i] by (simp add: c nth[OF i])
  qed
  have c3: "start_line (hd cs) = 0"
    using nth[of 0] gne c1 by (simp add: hd_conv_nth)
  have c4: "end_line (last cs) = int (length (split_nl src)) - 1"
  proof -
    have l: "length gs - 1 < length gs" using gne by simp
    have "length (concat gs) = length (concat (take (length gs - 1) gs)) + length (gs ! (length gs - 1))"
      using length_concat_take_Suc[OF l] gne by simp
    then show ?thesis using nth[OF l] c1 len cover by (simp add: last_conv_nth)
  qed
  have c5: "\<forall>i. Suc i < length cs \<longrightarrow> start_line (cs ! Suc i) = end_line (cs ! i) + 1"
  proof (intro allI impI)
    fix i assume "Suc i < length cs"
    then have s: "Suc i < length gs" and i: "i < length gs" using len by auto
    show "start_line (cs ! Suc i) = end_line (cs ! i) + 1"
      using length_concat_take_Suc[OF i] by (simp add: nth[OF s] nth[OF i])
  qed
  have c6: "\<forall>i < length cs. chunk_id (cs ! i) = ''chunk_'' @ str_nat i"
    using nth len by simp
  have c7: "\<forall>i < length cs. content (cs ! i) =
        join_nl (take (nat (end_line (cs ! i) - start_line (cs ! i) + 1))
                   (drop (nat (start_line (cs ! i))) (split_nl src)))"
  proof (intro allI impI)
    fix i assume "i < length cs"
    then have i: "i < length gs" using len by simp
    show "content (cs ! i) =
        join_nl (take (nat (end_line (cs ! i) - start_line (cs ! i) + 1))
                   (drop (nat (start_line (cs ! i))) (split_nl src)))"
      using concat_nth_slice[OF i] by (simp add: nth[OF i] cover[symmetric])
  qed
  show ?thesis using c1 c2 c3 c4 c5 c6 c7 by blast
qed

theorem chunk_code_file_line_ranges_witness:
  "length (chunk_code_file [CHR ''a'', newline, CHR ''b'', CHR ''b'', newline, CHR ''c''] ''a.py'' 3) = 2 \<and>
   start_line (chunk_code_file [CHR ''a'', newline, CHR ''b'', CHR ''b'', newline, CHR ''c''] ''a.py'' 3 ! 1) =
     end_line (chunk_code_file [CHR ''a'', newline, CHR ''b'', CHR ''b'', newline, CHR ''c''] ''a.py'' 3 ! 0) + 1 \<and>
   start_line (chunk_code_file [CHR ''a'', newline, CHR ''b'', CHR ''b'', newline, CHR ''c''] ''a.py'' 3 ! 0) \<le>
     end_line (chunk_code_file [CHR ''a'', newline, CHR ''b'', CHR ''b'', newline, CHR ''c''] ''a.py'' 3 ! 0) \<and>
   chunk_id (chunk_code_file [CHR ''a'', newline, CHR ''b'', CHR ''b'', newline, CHR ''c''] ''a.py'' 3 ! 1) = ''chunk_1''"
proof -
  let ?cs = "chunk_code_file [CHR ''a'', newline, CHR ''b'', CHR ''b'', newline, CHR ''c''] ''a.py'' 3"
  have ev: "?cs =
     [\<lparr>chunk_id = ''chunk_0'', content = [CHR ''a'', newline, CHR ''b'', CHR ''b''], start_line = 0,
        end_line = 1, file_path = ''a.py''\<rparr>,
      \<lparr>chunk_id = ''chunk_1'', content = ''c'', start_line = 2, end_line = 2,
        file_path = ''a.py''\<rparr>]"
    by (simp add: chunk_code_file_def chunk_step_def chunker_init_def enumerate_eq_zip
          newline_def upt_rec str_nat.simps digit_char_def)
  have len: "length ?cs = 2" by (simp add: ev)
  note T = chunk_code_file_line_ranges[of "[CHR ''a'', newline, CHR ''b'', CHR ''b'', newline, CHR ''c'']" "''a.py''" 3]
  have m0: "?cs ! 0 \<in> set ?cs" using len by (simp add: ev)
  have a: "start_line (?cs ! 0) \<le> end_line (?cs ! 0)" using T m0 by blast
  have s: "Suc 0 < length ?cs" using len by simp
  have b: "start_line (?cs ! Suc 0) = end_line (?cs ! 0) + 1" using T s by blast
  have i1: "1 < length ?cs" using len by simp
  have c: "chunk_id (?cs ! 1) = ''chunk_'' @ str_nat 1" using T i1 by blast
  show ?thesis using a b c len by (simp add: str_nat.simps digit_char_def)
qed

section \<open>Embedder: results\<close>

lemma embed_text_cache_bound:
  "length (embedding_cache self) \<le> cache_max_size \<Longrightarrow>
   length (embedding_cache (snd (embed_text D t self))) \<le> cache_max_size"
  by (auto simp: embed_text_def Let_def split: option.splits list.splits)

lemma embed_texts_cache_bound:
  "length (embedding_cache self) \<le> cache_max_size \<Longrightarrow>
   length (embedding_cache (embed_texts D ts self)) \<le> cache_max_size"
proof (induction ts arbitrary: self)
  case Nil
  then show ?case by simp
next
  case (Cons t ts)
  show ?case using Cons.IH[OF embed_text_cache_bound[OF Cons.prems]] by simp
qed

lemma embed_text_hit:
  "map_of (embedding_cache self) (md5_hex D t) = Some v \<Longrightarrow> embed_text D t self = (Inr v, self)"
  by (simp add: embed_text_def Let_def)

lemma embed_text_miss_full:
  assumes "map_of (embedding_cache self) (md5_hex D t) = None"
    and "length (embedding_cache self) = cache_max_size"
    and "encode D [t] = Some (e # es)"
  shows "fst (embed_text D t self) = Inr e \<and>
         embedding_cache (snd (embed_text D t self)) = tl (embedding_cache self) @ [(md5_hex D t, e)] \<and>
         model_calls (snd (embed_text D t self)) = model_calls self @ [[t]]"
  using assms by (auto simp: embed_text_def Let_def cache_max_size_def split: list.splits)

text \<open>
  C7. The cache limit is 1000. Starting from the empty cache of a new instance, no
  sequence of \<open>embed_text\<close> calls makes the cache hold more than 1000 entries, and every
  single call preserves the bound. A call whose hash is in the cache returns the cached
  vector and leaves the instance as it is, the log of model calls included. A miss on a
  cache holding 1000 entries returns the new vector and leaves the cache without its
  first, oldest-inserted entry and with the new entry at the end.
\<close>

theorem embed_text_cache:
  "cache_max_size = 1000 \<and>
   length (embedding_cache (embed_texts D ts store_init)) \<le> cache_max_size \<and>
   (length (embedding_cache self) \<le> cache_max_size \<longrightarrow>
      length (embedding_cache (snd (embed_text D t self))) \<le> cache_max_size) \<and>
   (map_of (embedding_cache self) (md5_hex D t) = Some v \<longrightarrow>
      embed_text D t self = (Inr v, self)) \<and>
   (map_of (embedding_cache self) (md5_hex D t) = None \<and>
    length (embedding_cache self) = cache_max_size \<and> encode D [t] = Some (e # es) \<longrightarrow>
      fst (embed_text D t self) = Inr e \<and>
      embedding_cache (snd (embed_text D t self)) =
        tl (embedding_cache self) @ [(md5_hex D t, e)])"
proof -
  have a: "length (embedding_cache (embed_texts D ts store_init)) \<le> cache_max_size"
    by (rule embed_texts_cache_bound) (simp add: store_init_def)
  show ?thesis
    using a embed_text_cache_bound[of self D t] embed_text_hit[of self D t v]
      embed_text_miss_full[of self D t e es]
    by (simp add: cache_max_size_def)
qed

theorem embed_text_cache_witness:
  "embed_text demo_deps ''a''
      \<lparr>code_embeddings = [], embedding_cache = full_cache, model_calls = []\<rparr>
    = (Inr [0], \<lparr>code_embeddings = [], embedding_cache = full_cache, model_calls = []\<rparr>) \<and>
   embedding_cache (snd (embed_text demo_deps ''b''
      \<lparr>code_embeddings = [], embedding_cache = full_cache, model_calls = []\<rparr>))
    = tl full_cache @ [(''b'', [1])] \<and>
   length (tl full_cache @ [(''b'', [1::real])]) = 1000"
proof -
  let ?self = "\<lparr>code_embeddings = [], embedding_cache = full_cache, model_calls = []\<rparr>"
  have len: "length (embedding_cache ?self) = cache_max_size"
    by (simp add: full_cache_def cache_max_size_def)
  have "(''a'', [0::real]) \<in> set full_cache"
  proof -
    have "(replicate 1 CHR ''a'', [0::real]) \<in> (\<lambda>n. (replicate n CHR ''a'', [0])) ` {0..<1000::nat}"
      by (rule imageI) simp
    then show ?thesis by (simp add: full_cache_def)
  qed
  moreover have "distinct (map fst full_cache)"
    by (auto simp: full_cache_def distinct_map inj_on_def comp_def dest: arg_cong[where f = length])
  ultimately have hit: "map_of (embedding_cache ?self) (md5_hex demo_deps ''a'') = Some [0]"
    by (simp add: demo_deps_def)
  have miss: "map_of (embedding_cache ?self) (md5_hex demo_deps ''b'') = None"
    by (auto simp: map_of_eq_None_iff full_cache_def demo_deps_def image_iff
          set_replicate_conv_if split: if_splits dest!: arg_cong[where f = set])
  have enc: "encode demo_deps [''b''] = Some ([1] # [])"
    by (simp add: demo_deps_def)
  have h: "embed_text demo_deps ''a'' ?self = (Inr [0], ?self)"
    using embed_text_cache[of demo_deps "[]" ?self "''a''" "[0]" "[]" "[]"] hit by simp
  have m: "embedding_cache (snd (embed_text demo_deps ''b'' ?self)) =
        tl (embedding_cache ?self) @ [(md5_hex demo_deps ''b'', [1])]"
    using embed_text_cache[of demo_deps "[]" ?self "''b''" "[]" "[1]" "[]"] miss len enc by simp
  have l: "length (tl full_cache @ [(''b'', [1::real])]) = 1000"
    by (simp add: full_cache_def)
  show ?thesis using h m l by (simp add: demo_deps_def)
qed

section \<open>Indexing: results\<close>

lemma index_file_added:
  "(\<forall>r \<in> set (added st). repo_name r = rname) \<and> total_chunks st = length (added st) \<Longrightarrow>
   (\<forall>r \<in> set (added (index_file D rname rurl fi st)). repo_name r = rname) \<and>
   total_chunks (index_file D rname rurl fi st) = length (added (index_file D rname rurl fi st))"
  by (auto simp: index_file_def Let_def make_row_def split: option.splits)

lemma index_fold_added:
  "(\<forall>r \<in> set (added st). repo_name r = rname) \<and> total_chunks st = length (added st) \<Longrightarrow>
   (\<forall>r \<in> set (added (fold (index_file D rname rurl) fs st)). repo_name r = rname) \<and>
   total_chunks (fold (index_file D rname rurl) fs st) =
     length (added (fold (index_file D rname rurl) fs st))"
proof (induction fs arbitrary: st)
  case Nil
  then show ?case by simp
next
  case (Cons f fs)
  show ?case using Cons.IH[OF index_file_added[OF Cons.prems]] by simp
qed

lemma index_repository_rows:
  "filter (\<lambda>r. repo_name r = dict_get [] (rd_repo_name rd))
      (code_embeddings (snd (index_repository D rd self))) =
   added (fold (index_file D (dict_get [] (rd_repo_name rd)) (dict_get [] (rd_github_url rd)))
            (dict_get [] (rd_files rd))
            \<lparr>added = [], indexed_count = 0, total_chunks = 0, calls = []\<rparr>)"
proof -
  let ?st = "fold (index_file D (dict_get [] (rd_repo_name rd)) (dict_get [] (rd_github_url rd)))
            (dict_get [] (rd_files rd))
            \<lparr>added = [], indexed_count = 0, total_chunks = 0, calls = []\<rparr>"
  have "\<forall>r \<in> set (added ?st). repo_name r = dict_get [] (rd_repo_name rd)"
    using index_fold_added[of "\<lparr>added = [], indexed_count = 0, total_chunks = 0, calls = []\<rparr>"]
    by simp
  then have "filter (\<lambda>r. repo_name r = dict_get [] (rd_repo_name rd)) (added ?st) = added ?st"
    by (simp add: filter_id_conv)
  then show ?thesis by (simp add: index_repository_def Let_def)
qed

lemma index_repository_total:
  "ir_total_chunks (fst (index_repository D rd self)) =
   length (added (fold (index_file D (dict_get [] (rd_repo_name rd)) (dict_get [] (rd_github_url rd)))
            (dict_get [] (rd_files rd))
            \<lparr>added = [], indexed_count = 0, total_chunks = 0, calls = []\<rparr>))"
  using index_fold_added[of "\<lparr>added = [], indexed_count = 0, total_chunks = 0, calls = []\<rparr>"]
  by (simp add: index_repository_def Let_def)

lemma index_file_rows:
  "added (index_file D rname rurl fi st) = added st @ file_rows D rname rurl fi"
  by (auto simp: index_file_def file_rows_def indexable_def file_chunks_def Let_def make_row_def
        split: option.splits)

lemma index_fold_rows:
  "added (fold (index_file D rname rurl) fs st) = added st @ concat (map (file_rows D rname rurl) fs)"
  by (induction fs arbitrary: st) (simp_all add: index_file_rows)

lemma index_repository_new_rows:
  "filter (\<lambda>r. repo_name r = dict_get [] (rd_repo_name rd))
      (code_embeddings (snd (index_repository D rd self))) =
   concat (map (file_rows D (dict_get [] (rd_repo_name rd)) (dict_get [] (rd_github_url rd)))
             (dict_get [] (rd_files rd)))"
  by (simp add: index_repository_rows index_fold_rows)

lemma map_zip_left:
  "length cs = length es \<Longrightarrow> map (\<lambda>p. g (fst p)) (zip cs es) = map g cs"
  by (induction cs es rule: list_induct2) auto

lemma file_rows_chunks:
  assumes "indexable fi"
    and "encode D (map content (file_chunks fi)) = Some es" and "length es = length (file_chunks fi)"
  shows "map (\<lambda>r. (row_file_path r, row_chunk_id r, row_content r)) (file_rows D rname rurl fi) =
         map (\<lambda>c. (dict_get [] (fi_path fi), chunk_id c, content c)) (file_chunks fi)"
proof -
  have "map (\<lambda>p. (dict_get [] (fi_path fi), chunk_id (fst p), content (fst p)))
               (zip (file_chunks fi) es) =
             map (\<lambda>c. (dict_get [] (fi_path fi), chunk_id c, content c)) (file_chunks fi)"
    using assms(3) by (intro map_zip_left) simp
  then show ?thesis using assms(1,2) by (simp add: file_rows_def comp_def case_prod_beta)
qed

lemma file_rows_not_indexable: "\<not> indexable fi \<Longrightarrow> file_rows D rname rurl fi = []"
  by (simp add: file_rows_def)

lemma concat_file_rows_chunks:
  "one_vector_each D fs \<Longrightarrow>
   map (\<lambda>r. (row_file_path r, row_chunk_id r, row_content r))
     (concat (map (file_rows D rname rurl) fs)) =
   concat (map (\<lambda>fi. map (\<lambda>c. (dict_get [] (fi_path fi), chunk_id c, content c)) (file_chunks fi))
             (filter indexable fs))"
proof (induction fs)
  case Nil
  then show ?case by simp
next
  case (Cons f fs)
  show ?case
  proof (cases "indexable f")
    case True
    then obtain es where es: "encode D (map content (file_chunks f)) = Some es"
      "length es = length (file_chunks f)"
      using Cons.prems by (auto simp: one_vector_each_def split: option.splits)
    have rest: "one_vector_each D fs" using Cons.prems True by (simp add: one_vector_each_def)
    show ?thesis
      using Cons.IH[OF rest] file_rows_chunks[OF True es, of rname rurl] True by simp
  next
    case False
    then have rest: "one_vector_each D fs" using Cons.prems by (simp add: one_vector_each_def)
    show ?thesis using Cons.IH[OF rest] False by (simp add: file_rows_not_indexable)
  qed
qed

lemma index_repository_others:
  "filter (\<lambda>r. repo_name r \<noteq> dict_get [] (rd_repo_name rd))
      (code_embeddings (snd (index_repository D rd self))) =
   filter (\<lambda>r. repo_name r \<noteq> dict_get [] (rd_repo_name rd)) (code_embeddings self)"
proof -
  let ?st = "fold (index_file D (dict_get [] (rd_repo_name rd)) (dict_get [] (rd_github_url rd)))
            (dict_get [] (rd_files rd))
            \<lparr>added = [], indexed_count = 0, total_chunks = 0, calls = []\<rparr>"
  have "\<forall>r \<in> set (added ?st). repo_name r = dict_get [] (rd_repo_name rd)"
    using index_fold_added[of "\<lparr>added = [], indexed_count = 0, total_chunks = 0, calls = []\<rparr>"]
    by simp
  then have "filter (\<lambda>r. repo_name r \<noteq> dict_get [] (rd_repo_name rd)) (added ?st) = []"
    by (simp add: filter_empty_conv)
  then show ?thesis by (simp add: index_repository_def Let_def)
qed

text \<open>
  C4. After \<open>index_repository\<close> for a repository, its rows are exactly the rows of the
  input files, whatever the store held before, and the rows of other repositories are
  untouched; \<open>total_chunks\<close> of its stats is the number of those rows and the count the
  call reports. When the model returns one vector per chunk, the rows are, in order, the
  chunks of the input files that are not skipped, and \<open>total_chunks\<close> is the number
  of these chunks. Indexing the same input a second time gives the same stats.
\<close>

theorem index_repository_replaces:
  "filter (\<lambda>r. repo_name r = dict_get [] (rd_repo_name rd))
      (code_embeddings (snd (index_repository D rd self))) =
     concat (map (file_rows D (dict_get [] (rd_repo_name rd)) (dict_get [] (rd_github_url rd)))
               (dict_get [] (rd_files rd))) \<and>
   filter (\<lambda>r. repo_name r \<noteq> dict_get [] (rd_repo_name rd))
      (code_embeddings (snd (index_repository D rd self))) =
     filter (\<lambda>r. repo_name r \<noteq> dict_get [] (rd_repo_name rd)) (code_embeddings self) \<and>
   st_total_chunks (get_repository_stats (snd (index_repository D rd self))
                      (dict_get [] (rd_repo_name rd))) =
     length (concat (map (file_rows D (dict_get [] (rd_repo_name rd)) (dict_get [] (rd_github_url rd)))
                       (dict_get [] (rd_files rd)))) \<and>
   ir_total_chunks (fst (index_repository D rd self)) =
     st_total_chunks (get_repository_stats (snd (index_repository D rd self))
                        (dict_get [] (rd_repo_name rd))) \<and>
   (one_vector_each D (dict_get [] (rd_files rd)) \<longrightarrow>
      map (\<lambda>r. (row_file_path r, row_chunk_id r, row_content r))
        (filter (\<lambda>r. repo_name r = dict_get [] (rd_repo_name rd))
           (code_embeddings (snd (index_repository D rd self)))) =
        concat (map (\<lambda>fi. map (\<lambda>c. (dict_get [] (fi_path fi), chunk_id c, content c)) (file_chunks fi))
                  (filter indexable (dict_get [] (rd_files rd)))) \<and>
      st_total_chunks (get_repository_stats (snd (index_repository D rd self))
                         (dict_get [] (rd_repo_name rd))) =
        sum_list (map (\<lambda>fi. length (file_chunks fi)) (filter indexable (dict_get [] (rd_files rd))))) \<and>
   get_repository_stats (snd (index_repository D rd (snd (index_repository D rd self))))
       (dict_get [] (rd_repo_name rd)) =
     get_repository_stats (snd (index_repository D rd self)) (dict_get [] (rd_repo_name rd))"
proof -
  let ?R = "dict_get [] (rd_repo_name rd)"
  let ?fs = "dict_get [] (rd_files rd)"
  let ?new = "concat (map (file_rows D ?R (dict_get [] (rd_github_url rd))) ?fs)"
  have rows: "filter (\<lambda>r. repo_name r = ?R) (code_embeddings (snd (index_repository D rd s))) = ?new"
    for s by (rule index_repository_new_rows)
  have others: "filter (\<lambda>r. repo_name r \<noteq> ?R) (code_embeddings (snd (index_repository D rd self))) =
     filter (\<lambda>r. repo_name r \<noteq> ?R) (code_embeddings self)"
    by (rule index_repository_others)
  have cnt: "st_total_chunks (get_repository_stats (snd (index_repository D rd self)) ?R) = length ?new"
    by (simp add: get_repository_stats_def Let_def rows)
  have rep: "ir_total_chunks (fst (index_repository D rd self)) =
     st_total_chunks (get_repository_stats (snd (index_repository D rd self)) ?R)"
    by (simp add: get_repository_stats_def Let_def index_repository_rows index_repository_total)
  have idem: "get_repository_stats (snd (index_repository D rd (snd (index_repository D rd self)))) ?R =
     get_repository_stats (snd (index_repository D rd self)) ?R"
    by (simp add: get_repository_stats_def Let_def rows)
  have good: "map (\<lambda>r. (row_file_path r, row_chunk_id r, row_content r))
        (filter (\<lambda>r. repo_name r = ?R) (code_embeddings (snd (index_repository D rd self)))) =
        concat (map (\<lambda>fi. map (\<lambda>c. (dict_get [] (fi_path fi), chunk_id c, content c)) (file_chunks fi))
                  (filter indexable ?fs)) \<and>
      st_total_chunks (get_repository_stats (snd (index_repository D rd self)) ?R) =
        sum_list (map (\<lambda>fi. length (file_chunks fi)) (filter indexable ?fs))"
    if ov: "one_vector_each D ?fs"
  proof -
    have m: "map (\<lambda>r. (row_file_path r, row_chunk_id r, row_content r)) ?new =
        concat (map (\<lambda>fi. map (\<lambda>c. (dict_get [] (fi_path fi), chunk_id c, content c)) (file_chunks fi))
                  (filter indexable ?fs))"
      by (rule concat_file_rows_chunks[OF ov])
    have "length ?new = length (map (\<lambda>r. (row_file_path r, row_chunk_id r, row_content r)) ?new)"
      by simp
    also have "\<dots> = sum_list (map (\<lambda>fi. length (file_chunks fi)) (filter indexable ?fs))"
      unfolding m by (simp add: length_concat comp_def)
    finally show ?thesis using m cnt by (simp add: rows)
  qed
  show ?thesis using rows[of self] others cnt rep idem good by blast
qed

theorem index_repository_replaces_witness:
  "one_vector_each demo_deps (dict_get [] (rd_files todo_repo)) \<and>
   st_total_chunks (get_repository_stats demo_store ''demo'') = 2 \<and>
   map (\<lambda>r. (row_file_path r, row_chunk_id r, row_content r))
     (filter (\<lambda>r. repo_name r = ''demo'')
        (code_embeddings (snd (index_repository demo_deps todo_repo demo_store)))) =
     [(''a.py'', ''chunk_0'', ''TODO fix''), (''b.py'', ''chunk_0'', ''print''),
      (''c.py'', ''chunk_0'', ''pass'')] \<and>
   st_total_chunks (get_repository_stats (snd (index_repository demo_deps todo_repo demo_store))
                      ''demo'') = 3 \<and>
   ir_total_chunks (fst (index_repository demo_deps todo_repo demo_store)) = 3"
proof -
  have R: "dict_get [] (rd_repo_name todo_repo) = ''demo''"
    by (simp add: todo_repo_def dict_get_def)
  have fc: "file_chunks \<lparr>fi_path = Some p, fi_content = Some body, fi_language = l\<rparr> =
      [\<lparr>chunk_id = ''chunk_0'', content = body, start_line = 0, end_line = 0, file_path = p\<rparr>]"
    if "newline \<notin> set body" for p body l
    using that by (simp add: file_chunks_def dict_get_def chunk_code_file_single)
  have ov: "one_vector_each demo_deps (dict_get [] (rd_files todo_repo))"
    by (simp add: one_vector_each_def todo_repo_def dict_get_def indexable_def fc newline_def
          demo_deps_def)
  have old: "st_total_chunks (get_repository_stats demo_store ''demo'') = 2"
    by (simp add: get_repository_stats_def demo_store_def demo_row_def)
  have chunks: "concat (map (\<lambda>fi. map (\<lambda>c. (dict_get [] (fi_path fi), chunk_id c, content c)) (file_chunks fi))
                  (filter indexable (dict_get [] (rd_files todo_repo)))) =
     [(''a.py'', ''chunk_0'', ''TODO fix''), (''b.py'', ''chunk_0'', ''print''),
      (''c.py'', ''chunk_0'', ''pass'')]"
    by (simp add: todo_repo_def dict_get_def indexable_def fc newline_def)
  have n: "sum_list (map (\<lambda>fi. length (file_chunks fi))
             (filter indexable (dict_get [] (rd_files todo_repo)))) = 3"
    by (simp add: todo_repo_def dict_get_def indexable_def fc newline_def)
  note T = index_repository_replaces[of todo_repo demo_deps demo_store, unfolded R]
  from T ov have g: "map (\<lambda>r. (row_file_path r, row_chunk_id r, row_content r))
        (filter (\<lambda>r. repo_name r = ''demo'')
           (code_embeddings (snd (index_repository demo_deps todo_repo demo_store)))) =
        concat (map (\<lambda>fi. map (\<lambda>c. (dict_get [] (fi_path fi), chunk_id c, content c)) (file_chunks fi))
                  (filter indexable (dict_get [] (rd_files todo_repo)))) \<and>
      st_total_chunks (get_repository_stats (snd (index_repository demo_deps todo_repo demo_store))
                         ''demo'') =
        sum_list (map (\<lambda>fi. length (file_chunks fi)) (filter indexable (dict_get [] (rd_files todo_repo))))"
    by blast
  from T have rep: "ir_total_chunks (fst (index_repository demo_deps todo_repo demo_store)) =
     st_total_chunks (get_repository_stats (snd (index_repository demo_deps todo_repo demo_store))
                        ''demo'')"
    by blast
  show ?thesis using g[unfolded chunks n] rep ov old by simp
qed

text \<open>
  C10. When the stats of the repository show at least one chunk, \<open>CodeIndexerTool._run\<close>
  with \<open>force_reindex = False\<close> returns success with the existing stats and
  \<open>reindexed = False\<close>, and the store is the one it was called with.
\<close>

theorem CodeIndexerTool_run_already_indexed:
  assumes "0 < st_total_chunks (get_repository_stats self (dict_get ''unknown_repo'' (rd_repo_name rd)))"
  shows "CodeIndexerTool_run D rd False (Some self) =
     (\<lparr>ix_success = True,
       ix_message = Some (''Repository '' @ [CHR 0x27] @ dict_get ''unknown_repo'' (rd_repo_name rd)
                            @ [CHR 0x27] @ '' already indexed''),
       ix_error = None,
       ix_existing_stats = Some (get_repository_stats self (dict_get ''unknown_repo'' (rd_repo_name rd))),
       ix_indexed_files = st_total_files (get_repository_stats self (dict_get ''unknown_repo'' (rd_repo_name rd))),
       ix_total_chunks = st_total_chunks (get_repository_stats self (dict_get ''unknown_repo'' (rd_repo_name rd))),
       ix_reindexed = Some False\<rparr>, Some self)"
  using assms by (simp add: CodeIndexerTool_run_def Let_def)

theorem CodeIndexerTool_run_already_indexed_witness:
  "fst (CodeIndexerTool_run demo_deps
          \<lparr>rd_repo_name = Some ''demo'', rd_github_url = None, rd_files = None\<rparr> False
          (Some demo_store)) =
     \<lparr>ix_success = True,
      ix_message = Some (''Repository '' @ [CHR 0x27] @ ''demo'' @ [CHR 0x27] @ '' already indexed''),
      ix_error = None,
      ix_existing_stats = Some \<lparr>st_total_chunks = 2, st_total_files = 2, st_avg_chunk_size = 0\<rparr>,
      ix_indexed_files = 2, ix_total_chunks = 2, ix_reindexed = Some False\<rparr> \<and>
   snd (CodeIndexerTool_run demo_deps
          \<lparr>rd_repo_name = Some ''demo'', rd_github_url = None, rd_files = None\<rparr> False
          (Some demo_store)) = Some demo_store"
proof -
  let ?rd = "\<lparr>rd_repo_name = Some ''demo'', rd_github_url = None, rd_files = None\<rparr>"
  have st: "get_repository_stats demo_store (dict_get ''unknown_repo'' (rd_repo_name ?rd)) =
      \<lparr>st_total_chunks = 2, st_total_files = 2, st_avg_chunk_size = 0\<rparr>"
    by (simp add: get_repository_stats_def demo_store_def demo_row_def dict_get_def)
  then have pos: "0 < st_total_chunks (get_repository_stats demo_store
                      (dict_get ''unknown_repo'' (rd_repo_name ?rd)))"
    by simp
  show ?thesis
    using CodeIndexerTool_run_already_indexed[OF pos, of demo_deps] st
    by (simp add: dict_get_def)
qed

section \<open>Retriever: results\<close>

subsection \<open>LIKE and literal substrings\<close>

lemma is_prefix_iff: "is_prefix q s \<longleftrightarrow> (\<exists>t. s = q @ t)"
  by (induction q s rule: is_prefix.induct) auto

lemma is_substring_iff: "is_substring q s \<longleftrightarrow> (\<exists>u v. s = u @ q @ v)"
proof (induction s)
  case Nil
  then show ?case by auto
next
  case (Cons c s)
  show ?case
  proof
    assume "is_substring q (c # s)"
    then consider "is_prefix q (c # s)" | "is_substring q s" by auto
    then show "\<exists>u v. c # s = u @ q @ v"
    proof cases
      case 1
      then obtain t where "c # s = q @ t" by (auto simp: is_prefix_iff)
      then have "c # s = [] @ q @ t" by simp
      then show ?thesis by blast
    next
      case 2
      then obtain u v where "s = u @ q @ v" using Cons by auto
      then have "c # s = (c # u) @ q @ v" by simp
      then show ?thesis by blast
    qed
  next
    assume "\<exists>u v. c # s = u @ q @ v"
    then obtain u v where uv: "c # s = u @ q @ v" by auto
    show "is_substring q (c # s)"
    proof (cases u)
      case Nil
      then have "is_prefix q (c # s)" using uv by (auto simp: is_prefix_iff)
      then show ?thesis by simp
    next
      case (Cons a u')
      then have "s = u' @ q @ v" using uv by simp
      then have "is_substring q s" using Cons.IH by auto
      then show ?thesis by simp
    qed
  qed
qed

lemma like_match_percent_all: "like_match ''%'' s"
  by (induction s) auto

lemma like_match_percent:
  "like_match (CHR ''%'' # ps) s \<longleftrightarrow> (\<exists>k \<le> length s. like_match ps (drop k s))"
proof (induction s)
  case Nil
  then show ?case by simp
next
  case (Cons c s)
  have "(\<exists>k \<le> length (c # s). like_match ps (drop k (c # s))) \<longleftrightarrow>
        like_match ps (c # s) \<or> (\<exists>k \<le> length s. like_match ps (drop k s))"
  proof
    assume "\<exists>k \<le> length (c # s). like_match ps (drop k (c # s))"
    then obtain k where k: "k \<le> length (c # s)" "like_match ps (drop k (c # s))" by auto
    show "like_match ps (c # s) \<or> (\<exists>k \<le> length s. like_match ps (drop k s))"
    proof (cases k)
      case 0
      then show ?thesis using k by simp
    next
      case (Suc k')
      then have "k' \<le> length s" "like_match ps (drop k' s)" using k by auto
      then show ?thesis by blast
    qed
  next
    assume "like_match ps (c # s) \<or> (\<exists>k \<le> length s. like_match ps (drop k s))"
    then show "\<exists>k \<le> length (c # s). like_match ps (drop k (c # s))"
    proof
      assume "like_match ps (c # s)"
      then have "0 \<le> length (c # s) \<and> like_match ps (drop 0 (c # s))" by simp
      then show ?thesis by blast
    next
      assume "\<exists>k \<le> length s. like_match ps (drop k s)"
      then obtain k where "k \<le> length s" "like_match ps (drop k s)" by auto
      then have "Suc k \<le> length (c # s) \<and> like_match ps (drop (Suc k) (c # s))" by simp
      then show ?thesis by blast
    qed
  qed
  then show ?case using Cons by simp
qed

lemma like_match_literal:
  "wildcard_free q \<Longrightarrow> like_match (q @ ps) s \<longleftrightarrow> is_prefix q s \<and> like_match ps (drop (length q) s)"
proof (induction q arbitrary: s)
  case Nil
  then show ?case by simp
next
  case (Cons c q)
  then have c: "c \<noteq> CHR ''%''" "c \<noteq> CHR ''_''" "c \<noteq> backslash" and q: "wildcard_free q"
    by (auto simp: wildcard_free_def)
  show ?case
  proof (cases s)
    case Nil
    then show ?thesis using c by simp
  next
    case (Cons d s')
    then show ?thesis using c Cons.IH[OF q, of s'] by auto
  qed
qed

lemma is_substring_drop: "is_substring q s \<longleftrightarrow> (\<exists>k \<le> length s. is_prefix q (drop k s))"
proof -
  have "(\<exists>u v. s = u @ q @ v) \<longleftrightarrow> (\<exists>k \<le> length s. \<exists>t. drop k s = q @ t)"
  proof
    assume "\<exists>u v. s = u @ q @ v"
    then obtain u v where "s = u @ q @ v" by auto
    then have "length u \<le> length s \<and> drop (length u) s = q @ v" by simp
    then show "\<exists>k \<le> length s. \<exists>t. drop k s = q @ t" by blast
  next
    assume "\<exists>k \<le> length s. \<exists>t. drop k s = q @ t"
    then obtain k t where "drop k s = q @ t" by auto
    then have "s = take k s @ q @ t" by (metis append_take_drop_id)
    then show "\<exists>u v. s = u @ q @ v" by blast
  qed
  then show ?thesis by (simp add: is_substring_iff is_prefix_iff)
qed

lemma sql_contains_literal:
  assumes "wildcard_free q"
  shows "sql_contains s q \<longleftrightarrow> is_substring q s"
proof -
  have lit: "like_match (q @ ''%'') t \<longleftrightarrow> is_prefix q t" for t
  proof -
    have "like_match (q @ ''%'') t \<longleftrightarrow> is_prefix q t \<and> like_match ''%'' (drop (length q) t)"
      by (rule like_match_literal[OF assms])
    then show ?thesis using like_match_percent_all by blast
  qed
  have "sql_contains s q \<longleftrightarrow> (\<exists>k \<le> length s. like_match (q @ ''%'') (drop k s))"
    using like_match_percent[of "q @ ''%''" s] by (simp del: like_match.simps add: sql_contains_def)
  also have "\<dots> \<longleftrightarrow> (\<exists>k \<le> length s. is_prefix q (drop k s))"
    by (simp only: lit)
  finally show ?thesis by (simp add: is_substring_drop)
qed

subsection \<open>Full-text search\<close>

text \<open>
  C6, as stated, fails: the query is handed to LIKE unescaped, so \<open>_\<close> and \<open>%\<close> in
  it are wildcards. The query \<open>a_c\<close> returns the chunk with content \<open>abc\<close>, which
  does not contain \<open>a_c\<close>.
\<close>

theorem fulltext_search_literal_counterexample:
  "map r_content (fulltext_search ''a_c'' ''demo'' 5 demo_store) = [''abc''] \<and>
   \<not> is_substring ''a_c'' ''abc''"
  by (simp add: fulltext_search_def text_query_def sql_contains_def demo_store_def demo_row_def
        format_fulltext_def backslash_def)

text \<open>
  C6, amended: full-text search returns at most \<open>limit\<close> results; every result has
  \<open>relevance_score = 1.0\<close> and is a chunk of the given repository whose content matches
  the pattern \<open>%query%\<close> of LIKE, case-sensitively; when the query has no \<open>%\<close>, no
  \<open>_\<close> and no backslash, the content contains the query as a literal substring.
\<close>

theorem fulltext_search_matches:
  "length (fulltext_search query rname limit self) \<le> limit \<and>
   (\<forall>r \<in> set (fulltext_search query rname limit self).
      relevance_score r = Some 1 \<and>
      (\<exists>row \<in> set (code_embeddings self).
         repo_name row = rname \<and> r_file_path r = row_file_path row \<and>
         r_chunk_id r = row_chunk_id row \<and> r_content r = row_content row \<and>
         sql_contains (row_content row) query \<and>
         (wildcard_free query \<longrightarrow> is_substring query (row_content row))))"
proof (intro conjI ballI)
  show "length (fulltext_search query rname limit self) \<le> limit"
    by (simp add: fulltext_search_def text_query_def)
next
  fix r assume "r \<in> set (fulltext_search query rname limit self)"
  then obtain row where row: "row \<in> set (text_query (code_embeddings self) rname query limit)"
    and r: "r = format_fulltext row"
    by (auto simp: fulltext_search_def)
  from row have "row \<in> set (filter (\<lambda>r. repo_name r = rname \<and> sql_contains (row_content r) query)
                         (code_embeddings self))"
    unfolding text_query_def by (rule in_set_takeD)
  then have mem: "row \<in> set (code_embeddings self)" and rn: "repo_name row = rname"
    and m: "sql_contains (row_content row) query" by auto
  show "relevance_score r = Some 1" by (simp add: r format_fulltext_def)
  show "\<exists>row \<in> set (code_embeddings self).
         repo_name row = rname \<and> r_file_path r = row_file_path row \<and>
         r_chunk_id r = row_chunk_id row \<and> r_content r = row_content row \<and>
         sql_contains (row_content row) query \<and>
         (wildcard_free query \<longrightarrow> is_substring query (row_content row))"
    using mem rn m sql_contains_literal[of query "row_content row"]
    by (intro bexI[of _ row]) (auto simp: r format_fulltext_def)
qed

theorem fulltext_search_matches_witness:
  "fulltext_search ''bc'' ''demo'' 5 demo_store \<noteq> [] \<and>
   relevance_score (hd (fulltext_search ''bc'' ''demo'' 5 demo_store)) = Some 1 \<and>
   is_substring ''bc'' (r_content (hd (fulltext_search ''bc'' ''demo'' 5 demo_store)))"
proof -
  let ?rs = "fulltext_search ''bc'' ''demo'' 5 demo_store"
  have ne: "?rs \<noteq> []"
    by (simp add: fulltext_search_def text_query_def sql_contains_def demo_store_def demo_row_def
          backslash_def)
  then have mem: "hd ?rs \<in> set ?rs" by simp
  have wf: "wildcard_free ''bc''" by (simp add: wildcard_free_def backslash_def)
  from fulltext_search_matches[of "''bc''" "''demo''" 5 demo_store] mem wf
  have "relevance_score (hd ?rs) = Some 1 \<and> is_substring ''bc'' (r_content (hd ?rs))"
    by (metis (no_types, lifting))
  then show ?thesis using ne by simp
qed

subsection \<open>Vector search\<close>

lemma embed_text_table: "code_embeddings (snd (embed_text D t self)) = code_embeddings self"
  by (auto simp: embed_text_def Let_def split: option.splits list.splits)

text \<open>
  C5. The results of vector search are in descending order of \<open>similarity_score\<close> and
  at most \<open>limit\<close>. When the query cannot be embedded the result is empty; otherwise the
  results are, in order, rows of the given repository in ascending order of cosine
  distance from the embedded query, each with \<open>similarity_score = 1 - distance\<close>.
\<close>

theorem vector_search_ranked:
  "sorted_wrt (\<lambda>a b. the (similarity_score a) \<ge> the (similarity_score b))
      (fst (vector_search D query rname limit self)) \<and>
   length (fst (vector_search D query rname limit self)) \<le> limit \<and>
   (case fst (embed_text D query self) of
      Inl e \<Rightarrow> fst (vector_search D query rname limit self) = []
    | Inr qv \<Rightarrow>
        (\<exists>rows. set rows \<subseteq> {r \<in> set (code_embeddings self). repo_name r = rname} \<and>
           sorted (map (\<lambda>r. cosine_distance D (embedding r) qv) rows) \<and>
           map r_file_path (fst (vector_search D query rname limit self)) = map row_file_path rows \<and>
           map r_chunk_id (fst (vector_search D query rname limit self)) = map row_chunk_id rows \<and>
           map similarity_score (fst (vector_search D query rname limit self)) =
             map (\<lambda>r. Some (1 - cosine_distance D (embedding r) qv)) rows))"
proof (cases "embed_text D query self")
  case (Pair res self1)
  then have tbl: "code_embeddings self1 = code_embeddings self"
    using embed_text_table[of D query self] by simp
  show ?thesis
  proof (cases res)
    case (Inl e)
    then show ?thesis using Pair by (simp add: vector_search_def)
  next
    case (Inr qv)
    let ?rows = "vector_query D (code_embeddings self) rname qv limit"
    have rs: "fst (vector_search D query rname limit self) = map (format_vector D qv) ?rows"
      using Pair Inr tbl by (simp add: vector_search_def)
    have srt: "sorted (map (\<lambda>r. cosine_distance D (embedding r) qv) ?rows)"
      by (simp add: vector_query_def take_map[symmetric] sorted_wrt_take)
    have sub: "set ?rows \<subseteq> {r \<in> set (code_embeddings self). repo_name r = rname}"
      by (auto simp: vector_query_def dest!: in_set_takeD)
    have len: "length ?rows \<le> limit" by (simp add: vector_query_def)
    have desc: "sorted_wrt (\<lambda>a b. the (similarity_score a) \<ge> the (similarity_score b))
                  (map (format_vector D qv) ?rows)"
      using srt by (simp add: sorted_wrt_map format_vector_def sorted_map)
    have ex: "\<exists>rows. set rows \<subseteq> {r \<in> set (code_embeddings self). repo_name r = rname} \<and>
           sorted (map (\<lambda>r. cosine_distance D (embedding r) qv) rows) \<and>
           map r_file_path (map (format_vector D qv) ?rows) = map row_file_path rows \<and>
           map r_chunk_id (map (format_vector D qv) ?rows) = map row_chunk_id rows \<and>
           map similarity_score (map (format_vector D qv) ?rows) =
             map (\<lambda>r. Some (1 - cosine_distance D (embedding r) qv)) rows"
      using sub srt by (intro exI[of _ ?rows]) (simp add: format_vector_def comp_def)
    show ?thesis using Pair Inr desc len ex by (simp add: rs)
  qed
qed

theorem vector_search_ranked_witness:
  "map similarity_score (fst (vector_search demo_deps ''q'' ''demo'' 5 demo_store)) =
     [Some 1, Some (4 / 5)] \<and>
   sorted_wrt (\<lambda>a b. the (similarity_score a) \<ge> the (similarity_score b))
     (fst (vector_search demo_deps ''q'' ''demo'' 5 demo_store))"
proof -
  have "map similarity_score (fst (vector_search demo_deps ''q'' ''demo'' 5 demo_store)) =
     [Some 1, Some (4 / 5)]"
    by (simp add: vector_search_def embed_text_def vector_query_def format_vector_def
          demo_deps_def demo_store_def demo_row_def cache_max_size_def Let_def)
  then show ?thesis
    using vector_search_ranked[of demo_deps "''q''" "''demo''" 5 demo_store] by simp
qed

subsection \<open>Hybrid search\<close>

lemma dict_set_new: "k \<notin> fst ` set d \<Longrightarrow> dict_set k v d = d @ [(k, v)]"
  by (induction d) auto

lemma dict_set_present:
  "distinct (map fst d) \<Longrightarrow> k \<in> fst ` set d \<Longrightarrow>
   dict_set k v d = map (\<lambda>p. if fst p = k then (k, v) else p) d"
proof (induction d)
  case Nil
  then show ?case by simp
next
  case (Cons p d)
  show ?case
  proof (cases "fst p = k")
    case True
    then have "k \<notin> fst ` set d" using Cons.prems by auto
    then have "map (\<lambda>p. if fst p = k then (k, v) else p) d = d"
      by (intro map_idI) auto
    then show ?thesis using True by (cases p) simp
  next
    case False
    then show ?thesis using Cons by (cases p) auto
  qed
qed

lemma dict_set_append_left:
  "k \<in> fst ` set d1 \<Longrightarrow> dict_set k v (d1 @ d2) = dict_set k v d1 @ d2"
  by (induction d1) force+

lemma fold_add_vector:
  assumes "distinct (map result_key vrs)"
    and "\<forall>v \<in> set vrs. similarity_score v \<noteq> None"
    and "result_key ` set vrs \<inter> fst ` set d = {}"
  shows "fold add_vector_result vrs (Inr d) = Inr (d @ map (\<lambda>v. (result_key v, tag_vector v)) vrs)"
  using assms
proof (induction vrs arbitrary: d)
  case Nil
  then show ?case by simp
next
  case (Cons v vrs)
  obtain s where s: "similarity_score v = Some s" using Cons.prems(2) by auto
  have new: "result_key v \<notin> fst ` set d" using Cons.prems(3) by auto
  have step: "add_vector_result v (Inr d) = Inr (d @ [(result_key v, tag_vector v)])"
    using s new by (simp add: add_vector_result_def dict_set_new tag_vector_def)
  have disj: "result_key ` set vrs \<inter> fst ` set (d @ [(result_key v, tag_vector v)]) = {}"
    using Cons.prems(1,3) by auto
  show ?case
    using Cons.IH[OF _ _ disj] Cons.prems(1,2) by (simp add: step)
qed

lemma boost_Cons_other:
  "result_key f \<noteq> fst p \<Longrightarrow> boost (f # frs) p = boost frs p"
  by (simp add: boost_def)

lemma boost_Cons_hit:
  "result_key f = fst p \<Longrightarrow> boost (f # frs) p = (fst p, tag_hybrid f (snd p))"
  by (simp add: boost_def)

lemma boost_absent:
  "fst p \<notin> result_key ` set frs \<Longrightarrow> boost frs p = p"
proof -
  assume "fst p \<notin> result_key ` set frs"
  then have "find (\<lambda>f. result_key f = fst p) frs = None"
    by (auto simp: find_None_iff image_iff)
  then show ?thesis by (simp add: boost_def)
qed

lemma fst_boost: "fst (boost frs p) = fst p"
  by (simp add: boost_def split: option.splits)

lemma fold_add_fulltext:
  assumes "distinct (map fst dv)"
    and "distinct (map result_key frs)"
    and "\<forall>p \<in> set dv. similarity_score (snd p) \<noteq> None"
    and "\<forall>f \<in> set frs. relevance_score f \<noteq> None"
    and "fst ` set df \<inter> result_key ` set frs = {}"
    and "fst ` set df \<inter> fst ` set dv = {}"
  shows "fold add_fulltext_result frs (Inr (dv @ df)) =
     Inr (map (boost frs) dv @ df @
          map (\<lambda>f. (result_key f, tag_fulltext f))
            (filter (\<lambda>f. result_key f \<notin> fst ` set dv) frs))"
  using assms
proof (induction frs arbitrary: dv df)
  case Nil
  have "map (boost []) dv = dv" by (intro map_idI) (simp add: boost_def)
  then show ?case by simp
next
  case (Cons f frs)
  let ?k = "result_key f"
  obtain rl where rl: "relevance_score f = Some rl" using Cons.prems(4) by auto
  have dfrs: "distinct (map result_key frs)" and knew: "?k \<notin> result_key ` set frs"
    using Cons.prems(2) by auto
  have relr: "\<forall>f \<in> set frs. relevance_score f \<noteq> None" using Cons.prems(4) by simp
  have kdf: "?k \<notin> fst ` set df" using Cons.prems(5) by auto
  show ?case
  proof (cases "?k \<in> fst ` set dv")
    case True
    then obtain e where e: "(?k, e) \<in> set dv" by auto
    then have look: "map_of (dv @ df) ?k = Some e"
      using Cons.prems(1) by (simp add: map_of_append)
    obtain s where s: "similarity_score e = Some s" using Cons.prems(3) e by fastforce
    let ?e' = "tag_hybrid f e"
    let ?upd = "\<lambda>p. if fst p = ?k then (?k, ?e') else p"
    have step: "add_fulltext_result f (Inr (dv @ df)) = Inr (map ?upd dv @ df)"
      using look s rl True Cons.prems(1)
      by (simp add: add_fulltext_result_def tag_hybrid_def dict_set_append_left dict_set_present)
    have keys: "map fst (map ?upd dv) = map fst dv" by (induction dv) auto
    then have kset: "fst ` set (map ?upd dv) = fst ` set dv"
      by (metis list.set_map)
    have d1: "distinct (map fst (map ?upd dv))" unfolding keys by (rule Cons.prems(1))
    have d3: "\<forall>p \<in> set (map ?upd dv). similarity_score (snd p) \<noteq> None"
      using Cons.prems(3) s by (auto simp: tag_hybrid_def)
    have d5: "fst ` set df \<inter> result_key ` set frs = {}" using Cons.prems(5) by auto
    have d6: "fst ` set df \<inter> fst ` set (map ?upd dv) = {}" using Cons.prems(6) kset by simp
    have IH: "fold add_fulltext_result frs (Inr (map ?upd dv @ df)) =
       Inr (map (boost frs) (map ?upd dv) @ df @
            map (\<lambda>f. (result_key f, tag_fulltext f))
              (filter (\<lambda>f. result_key f \<notin> fst ` set (map ?upd dv)) frs))"
      by (rule Cons.IH[OF d1 dfrs d3 relr d5 d6])
    have pt: "boost frs (?upd p) = boost (f # frs) p" if p: "p \<in> set dv" for p
    proof (cases "fst p = ?k")
      case True
      have "p = (?k, e)"
        using Cons.prems(1) p e True by (metis eq_key_imp_eq_value prod.collapse)
      then show ?thesis using knew by (simp add: boost_absent boost_Cons_hit)
    next
      case False
      then show ?thesis by (simp add: boost_Cons_other)
    qed
    have m: "map (boost frs) (map ?upd dv) = map (boost (f # frs)) dv"
      using pt by (simp add: comp_def)
    have fl: "filter (\<lambda>f. result_key f \<notin> fst ` set dv) (f # frs) =
              filter (\<lambda>f. result_key f \<notin> fst ` set dv) frs"
      using True by simp
    have "fold add_fulltext_result (f # frs) (Inr (dv @ df)) =
          fold add_fulltext_result frs (Inr (map ?upd dv @ df))"
      by (simp add: step)
    also have "\<dots> = Inr (map (boost (f # frs)) dv @ df @
            map (\<lambda>f. (result_key f, tag_fulltext f))
              (filter (\<lambda>f. result_key f \<notin> fst ` set dv) frs))"
      unfolding IH m kset by (rule refl)
    finally show ?thesis unfolding fl .
  next
    case False
    have look: "map_of (dv @ df) ?k = None"
      using False kdf by (simp add: map_of_append map_of_eq_None_iff)
    have knotin: "?k \<notin> fst ` set (dv @ df)" using False kdf by auto
    have step: "add_fulltext_result f (Inr (dv @ df)) =
                  Inr (dv @ (df @ [(?k, tag_fulltext f)]))"
      using rl dict_set_new[OF knotin]
      by (simp add: add_fulltext_result_def tag_fulltext_def look del: map_of_append)
    have d5: "fst ` set (df @ [(?k, tag_fulltext f)]) \<inter> result_key ` set frs = {}"
      using Cons.prems(5) knew by auto
    have d6: "fst ` set (df @ [(?k, tag_fulltext f)]) \<inter> fst ` set dv = {}"
      using Cons.prems(6) False by auto
    have IH: "fold add_fulltext_result frs (Inr (dv @ (df @ [(?k, tag_fulltext f)]))) =
       Inr (map (boost frs) dv @ (df @ [(?k, tag_fulltext f)]) @
            map (\<lambda>f. (result_key f, tag_fulltext f))
              (filter (\<lambda>f. result_key f \<notin> fst ` set dv) frs))"
      by (rule Cons.IH[OF Cons.prems(1) dfrs Cons.prems(3) relr d5 d6])
    have pt: "boost (f # frs) p = boost frs p" if p: "p \<in> set dv" for p
      using False p by (intro boost_Cons_other) force
    have m: "map (boost (f # frs)) dv = map (boost frs) dv" using pt by simp
    have fl: "filter (\<lambda>f. result_key f \<notin> fst ` set dv) (f # frs) =
              f # filter (\<lambda>f. result_key f \<notin> fst ` set dv) frs"
      using False by simp
    have "fold add_fulltext_result (f # frs) (Inr (dv @ df)) =
          fold add_fulltext_result frs (Inr (dv @ (df @ [(?k, tag_fulltext f)])))"
      by (simp add: step)
    also have "\<dots> = Inr (map (boost (f # frs)) dv @ (df @ [(?k, tag_fulltext f)]) @
            map (\<lambda>f. (result_key f, tag_fulltext f))
              (filter (\<lambda>f. result_key f \<notin> fst ` set dv) frs))"
      unfolding IH m by (rule refl)
    finally show ?thesis unfolding fl by simp
  qed
qed

lemma colon_key_inj:
  "CHR '':'' \<notin> set c1 \<Longrightarrow> CHR '':'' \<notin> set c2 \<Longrightarrow>
   p1 @ CHR '':'' # c1 = p2 @ CHR '':'' # c2 \<Longrightarrow> p1 = p2 \<and> c1 = c2"
proof (induction p1 arbitrary: p2)
  case Nil
  then show ?case by (cases p2) auto
next
  case (Cons x p1)
  show ?case
  proof (cases p2)
    case Nil
    then show ?thesis using Cons.prems by auto
  next
    case (Cons y p2')
    then show ?thesis using Cons.IH[of p2'] Cons.prems by auto
  qed
qed

lemma result_key_eq_iff:
  "CHR '':'' \<notin> set (r_chunk_id a) \<Longrightarrow> CHR '':'' \<notin> set (r_chunk_id b) \<Longrightarrow>
   result_key a = result_key b \<longleftrightarrow> key_of a = key_of b"
  using colon_key_inj[of "r_chunk_id a" "r_chunk_id b" "r_file_path a" "r_file_path b"]
  by (auto simp: result_key_def key_of_def)

lemma distinct_map_insort_key:
  "distinct (map g (insort_key f x xs)) \<longleftrightarrow> g x \<notin> g ` set xs \<and> distinct (map g xs)"
  by (induction xs) (auto simp: set_insort_key)

lemma distinct_map_sort_key:
  "distinct (map g (sort_key f xs)) \<longleftrightarrow> distinct (map g xs)"
  by (induction xs) (simp_all add: distinct_map_insort_key)

lemma distinct_map_take: "distinct (map g xs) \<Longrightarrow> distinct (map g (take n xs))"
  by (simp add: take_map[symmetric])

lemma vector_query_keys:
  assumes "corpus_keys_ok tbl rname"
  shows "distinct (map (\<lambda>r. (row_file_path r, row_chunk_id r)) (vector_query D tbl rname qv limit))"
    and "\<forall>r \<in> set (vector_query D tbl rname qv limit). CHR '':'' \<notin> set (row_chunk_id r)"
proof -
  show "distinct (map (\<lambda>r. (row_file_path r, row_chunk_id r)) (vector_query D tbl rname qv limit))"
    unfolding vector_query_def
    using assms by (intro distinct_map_take) (simp add: distinct_map_sort_key corpus_keys_ok_def)
  show "\<forall>r \<in> set (vector_query D tbl rname qv limit). CHR '':'' \<notin> set (row_chunk_id r)"
    using assms
    by (auto simp: vector_query_def corpus_keys_ok_def list_all_iff dest!: in_set_takeD)
qed

lemma text_query_keys:
  assumes "corpus_keys_ok tbl rname"
  shows "distinct (map (\<lambda>r. (row_file_path r, row_chunk_id r)) (text_query tbl rname query limit))"
    and "\<forall>r \<in> set (text_query tbl rname query limit). CHR '':'' \<notin> set (row_chunk_id r)"
proof -
  have f: "filter (\<lambda>r. repo_name r = rname \<and> sql_contains (row_content r) query) tbl =
           filter (\<lambda>r. sql_contains (row_content r) query) (filter (\<lambda>r. repo_name r = rname) tbl)"
    by (simp add: conj_commute)
  show "distinct (map (\<lambda>r. (row_file_path r, row_chunk_id r)) (text_query tbl rname query limit))"
    unfolding text_query_def f
  proof (rule distinct_map_take, rule distinct_map_filter)
    show "distinct (map (\<lambda>r. (row_file_path r, row_chunk_id r)) (filter (\<lambda>r. repo_name r = rname) tbl))"
      using assms by (simp add: corpus_keys_ok_def)
  qed
  show "\<forall>r \<in> set (text_query tbl rname query limit). CHR '':'' \<notin> set (row_chunk_id r)"
    using assms
    by (auto simp: text_query_def corpus_keys_ok_def list_all_iff dest!: in_set_takeD)
qed

lemma vector_search_keys:
  assumes "corpus_keys_ok (code_embeddings self) rname"
  shows "distinct (map key_of (fst (vector_search D query rname limit self)))"
    and "\<forall>r \<in> set (fst (vector_search D query rname limit self)).
           CHR '':'' \<notin> set (r_chunk_id r) \<and> similarity_score r \<noteq> None"
    and "code_embeddings (snd (vector_search D query rname limit self)) = code_embeddings self"
proof -
  obtain res self1 where et: "embed_text D query self = (res, self1)" by (cases "embed_text D query self")
  then have tbl: "code_embeddings self1 = code_embeddings self"
    using embed_text_table[of D query self] by simp
  have k: "key_of \<circ> format_vector D qv = (\<lambda>r. (row_file_path r, row_chunk_id r))" for qv
    by (auto simp: key_of_def format_vector_def)
  show "distinct (map key_of (fst (vector_search D query rname limit self)))"
    using et tbl vector_query_keys(1)[OF assms]
    by (cases res) (simp_all add: vector_search_def k)
  show "\<forall>r \<in> set (fst (vector_search D query rname limit self)).
           CHR '':'' \<notin> set (r_chunk_id r) \<and> similarity_score r \<noteq> None"
    using et tbl vector_query_keys(2)[OF assms]
    by (cases res) (auto simp: vector_search_def format_vector_def)
  show "code_embeddings (snd (vector_search D query rname limit self)) = code_embeddings self"
    using et tbl by (cases res) (simp_all add: vector_search_def)
qed

lemma fulltext_search_keys:
  assumes "corpus_keys_ok (code_embeddings self) rname"
  shows "distinct (map key_of (fulltext_search query rname limit self))"
    and "\<forall>r \<in> set (fulltext_search query rname limit self).
           CHR '':'' \<notin> set (r_chunk_id r) \<and> relevance_score r \<noteq> None"
proof -
  have k: "key_of \<circ> format_fulltext = (\<lambda>r. (row_file_path r, row_chunk_id r))"
    by (auto simp: key_of_def format_fulltext_def)
  show "distinct (map key_of (fulltext_search query rname limit self))"
    using text_query_keys(1)[OF assms] by (simp add: fulltext_search_def k)
  show "\<forall>r \<in> set (fulltext_search query rname limit self).
           CHR '':'' \<notin> set (r_chunk_id r) \<and> relevance_score r \<noteq> None"
    using text_query_keys(2)[OF assms] by (auto simp: fulltext_search_def format_fulltext_def)
qed

lemma merge_loops:
  assumes dv: "distinct (map key_of vrs)" and df: "distinct (map key_of frs)"
    and cv: "\<forall>r \<in> set vrs. CHR '':'' \<notin> set (r_chunk_id r) \<and> similarity_score r \<noteq> None"
    and cf: "\<forall>r \<in> set frs. CHR '':'' \<notin> set (r_chunk_id r) \<and> relevance_score r \<noteq> None"
  shows "\<exists>d. fold add_fulltext_result frs (fold add_vector_result vrs (Inr [])) = Inr d \<and>
             map snd d = hybrid_merge_spec vrs frs"
proof -
  have eqv: "result_key a = result_key b \<longleftrightarrow> key_of a = key_of b"
    if "a \<in> set vrs \<union> set frs" "b \<in> set vrs \<union> set frs" for a b
    using that cv cf by (intro result_key_eq_iff) auto
  have dkv: "distinct (map result_key vrs)"
  proof -
    have "distinct vrs" and "inj_on key_of (set vrs)" using dv by (auto simp: distinct_map)
    moreover have "inj_on result_key (set vrs)"
      using \<open>inj_on key_of (set vrs)\<close> eqv by (auto simp: inj_on_def)
    ultimately show ?thesis by (simp add: distinct_map)
  qed
  have dkf: "distinct (map result_key frs)"
  proof -
    have "distinct frs" and "inj_on key_of (set frs)" using df by (auto simp: distinct_map)
    moreover have "inj_on result_key (set frs)"
      using \<open>inj_on key_of (set frs)\<close> eqv by (auto simp: inj_on_def)
    ultimately show ?thesis by (simp add: distinct_map)
  qed
  let ?dv = "map (\<lambda>v. (result_key v, tag_vector v)) vrs"
  have v: "fold add_vector_result vrs (Inr []) = Inr ?dv"
    using fold_add_vector[OF dkv, of "[]"] cv by simp
  have k1: "map fst ?dv = map result_key vrs" by (simp add: comp_def)
  have a1: "distinct (map fst ?dv)" unfolding k1 by (rule dkv)
  have a3: "\<forall>p \<in> set ?dv. similarity_score (snd p) \<noteq> None"
    using cv by (auto simp: tag_vector_def)
  have a4: "\<forall>f \<in> set frs. relevance_score f \<noteq> None" using cf by simp
  let ?d = "map (boost frs) ?dv @ [] @
          map (\<lambda>f. (result_key f, tag_fulltext f))
            (filter (\<lambda>f. result_key f \<notin> fst ` set ?dv) frs)"
  have f: "fold add_fulltext_result frs (Inr (?dv @ [])) = Inr ?d"
    by (rule fold_add_fulltext[OF a1 dkf a3 a4]) simp_all
  have left: "map snd (map (boost frs) ?dv) =
      map (\<lambda>v. case find (\<lambda>f. key_of f = key_of v) frs of
                None \<Rightarrow> tag_vector v | Some f \<Rightarrow> tag_hybrid f v) vrs"
  proof -
    have "snd (boost frs (result_key v, tag_vector v)) =
          (case find (\<lambda>f. key_of f = key_of v) frs of
                None \<Rightarrow> tag_vector v | Some f \<Rightarrow> tag_hybrid f v)" if v: "v \<in> set vrs" for v
    proof -
      have "find (\<lambda>f. result_key f = result_key v) frs = find (\<lambda>f. key_of f = key_of v) frs"
        using eqv v by (intro find_cong) auto
      moreover have "tag_hybrid g (tag_vector v) = tag_hybrid g v" for g
        by (simp add: tag_hybrid_def tag_vector_def)
      ultimately show ?thesis by (simp add: boost_def split: option.splits)
    qed
    then show ?thesis by simp
  qed
  have right: "filter (\<lambda>f. result_key f \<notin> fst ` set ?dv) frs =
               filter (\<lambda>f. key_of f \<notin> set (map key_of vrs)) frs"
  proof (rule filter_cong[OF refl])
    fix g assume g: "g \<in> set frs"
    have "result_key g \<in> result_key ` set vrs \<longleftrightarrow> key_of g \<in> key_of ` set vrs"
      using eqv g by (auto simp: image_iff)
    moreover have "fst ` set ?dv = result_key ` set vrs" by force
    ultimately show "(result_key g \<notin> fst ` set ?dv) = (key_of g \<notin> set (map key_of vrs))"
      by simp
  qed
  have "map snd ?d = hybrid_merge_spec vrs frs"
    unfolding hybrid_merge_spec_def map_append left right by (simp add: comp_def)
  then show ?thesis using v f by auto
qed

lemma hybrid_merge_spec_scored:
  assumes "\<forall>r \<in> set vrs. similarity_score r \<noteq> None"
  shows "list_all (\<lambda>r. combined_score r \<noteq> None) (hybrid_merge_spec vrs frs)"
proof -
  have h: "\<exists>y. combined_score (tag_hybrid f v) = Some y" for f v
    by (rule exI[of _ "(the (similarity_score v) + the (relevance_score f) / 10) / 2"])
      (simp add: tag_hybrid_def)
  have t: "\<exists>y. combined_score (tag_fulltext f) = Some y" for f
    by (rule exI[of _ "the (relevance_score f) / 10"]) (simp add: tag_fulltext_def)
  have v: "\<exists>y. combined_score (tag_vector v) = Some y" if "v \<in> set vrs" for v
    using assms that by (simp add: tag_vector_def)
  show ?thesis
    unfolding hybrid_merge_spec_def list_all_iff
    using h t v by (auto split: option.splits)
qed

lemma hybrid_search_spec_sorted:
  "sorted_wrt (\<lambda>a b. the (combined_score a) \<ge> the (combined_score b)) (hybrid_search_spec limit vrs frs) \<and>
   length (hybrid_search_spec limit vrs frs) \<le> limit"
proof -
  have "sorted (map (\<lambda>r. - the (combined_score r))
                  (sort_key (\<lambda>r. - the (combined_score r)) (hybrid_merge_spec vrs frs)))"
    by (rule sorted_sort_key)
  then have "sorted_wrt (\<lambda>a b. the (combined_score a) \<ge> the (combined_score b))
               (sort_key (\<lambda>r. - the (combined_score r)) (hybrid_merge_spec vrs frs))"
    by (simp add: sorted_map)
  then show ?thesis by (simp add: hybrid_search_spec_def sorted_wrt_take)
qed

text \<open>
  The merge on a well-formed repository. When the rows of the repository satisfy the
  identity invariant, hybrid search returns the merge of the vector and the full-text
  results by \<open>(file_path, chunk_id)\<close> as the specification words it (\<open>hybrid\<close> with
  \<open>(similarity_score + relevance_score / 10) / 2\<close>, \<open>vector\<close> with
  \<open>similarity_score\<close>, \<open>fulltext\<close> with \<open>relevance_score / 10\<close>), sorted by
  descending \<open>combined_score\<close> and cut to the first \<open>limit\<close> entries.
\<close>

theorem hybrid_search_merges:
  assumes "corpus_keys_ok (code_embeddings self) rname"
  shows "hybrid_search D query rname limit self =
     (Inr (hybrid_search_spec limit (fst (vector_search D query rname limit self))
             (fulltext_search query rname limit self)),
      snd (vector_search D query rname limit self)) \<and>
   sorted_wrt (\<lambda>a b. the (combined_score a) \<ge> the (combined_score b))
     (hybrid_search_spec limit (fst (vector_search D query rname limit self))
        (fulltext_search query rname limit self)) \<and>
   length (hybrid_search_spec limit (fst (vector_search D query rname limit self))
        (fulltext_search query rname limit self)) \<le> limit"
proof -
  obtain vrs self1 where vs: "vector_search D query rname limit self = (vrs, self1)"
    by (cases "vector_search D query rname limit self")
  have tbl: "code_embeddings self1 = code_embeddings self"
    using vector_search_keys(3)[OF assms, of D query limit] vs by simp
  have fs: "fulltext_search query rname limit self1 = fulltext_search query rname limit self"
    by (simp add: fulltext_search_def tbl)
  let ?frs = "fulltext_search query rname limit self"
  have dv: "distinct (map key_of vrs)"
    using vector_search_keys(1)[OF assms, of D query limit] vs by simp
  have cv: "\<forall>r \<in> set vrs. CHR '':'' \<notin> set (r_chunk_id r) \<and> similarity_score r \<noteq> None"
    using vector_search_keys(2)[OF assms, of D query limit] vs by simp
  obtain d where d: "fold add_fulltext_result ?frs (fold add_vector_result vrs (Inr [])) = Inr d"
    and m: "map snd d = hybrid_merge_spec vrs ?frs"
    using merge_loops[OF dv fulltext_search_keys(1)[OF assms] cv fulltext_search_keys(2)[OF assms]]
    by blast
  have sc: "list_all (\<lambda>r. combined_score r \<noteq> None) (hybrid_merge_spec vrs ?frs)"
    using cv by (intro hybrid_merge_spec_scored) simp
  have "hybrid_search D query rname limit self =
     (Inr (hybrid_search_spec limit (fst (vector_search D query rname limit self))
             (fulltext_search query rname limit self)),
      snd (vector_search D query rname limit self))"
    using sc by (simp add: hybrid_search_def vs fs d m sort_results_def hybrid_search_spec_def)
  then show ?thesis using hybrid_search_spec_sorted by blast
qed

theorem hybrid_search_merges_witness:
  "fst (hybrid_search demo_deps ''bc'' ''demo'' 10 demo_store) =
     Inr (hybrid_search_spec 10 (fst (vector_search demo_deps ''bc'' ''demo'' 10 demo_store))
            (fulltext_search ''bc'' ''demo'' 10 demo_store)) \<and>
   map (\<lambda>r. (r_file_path r, search_type r, combined_score r))
     (hybrid_search_spec 10 (fst (vector_search demo_deps ''bc'' ''demo'' 10 demo_store))
        (fulltext_search ''bc'' ''demo'' 10 demo_store)) =
     [(''b.py'', Some ''vector'', Some 1), (''a.py'', Some ''hybrid'', Some (9 / 20))]"
proof -
  have ok: "corpus_keys_ok (code_embeddings demo_store) ''demo''"
    by (simp add: corpus_keys_ok_def demo_store_def demo_row_def)
  have ev: "map (\<lambda>r. (r_file_path r, search_type r, combined_score r))
     (hybrid_search_spec 10 (fst (vector_search demo_deps ''bc'' ''demo'' 10 demo_store))
        (fulltext_search ''bc'' ''demo'' 10 demo_store)) =
     [(''b.py'', Some ''vector'', Some 1), (''a.py'', Some ''hybrid'', Some (9 / 20))]"
    by (simp add: vector_search_def embed_text_def vector_query_def format_vector_def
        fulltext_search_def text_query_def sql_contains_def format_fulltext_def
        hybrid_search_spec_def hybrid_merge_spec_def key_of_def tag_vector_def tag_hybrid_def
        tag_fulltext_def demo_deps_def demo_store_def demo_row_def cache_max_size_def Let_def
        backslash_def)
  show ?thesis
    using hybrid_search_merges[OF ok, of demo_deps "''bc''" 10] ev by simp
qed

section \<open>RAG answerer: results\<close>

lemma long_line_facts:
  "newline \<notin> set long_line" "length long_line = 1001" "long_line \<noteq> []"
  by (auto simp: long_line_def newline_def)

lemma long_store_rows:
  "code_embeddings long_store =
     [\<lparr>repo_name = ''demo'', repo_url = [], row_file_path = ''a.py'', row_chunk_id = ''chunk_0'',
       row_content = long_line, embedding = [1],
       chunk_metadata = Some \<lparr>md_language = ''python'', md_start_line = 0, md_end_line = 0,
                              md_chunk_size = 1001, md_file_size = 1001\<rparr>\<rparr>]"
  by (simp add: long_store_def index_repository_def index_file_def long_repo_def dict_get_def
        store_init_def Let_def chunk_code_file_single long_line_facts make_row_def demo_deps_def)

lemma long_store_cache: "embedding_cache long_store = []"
  by (simp add: long_store_def index_repository_def store_init_def Let_def)

lemma no_match: "\<not> sql_contains long_line ''what''"
proof -
  have wf: "wildcard_free ''what''" by (simp add: wildcard_free_def backslash_def)
  have "\<not> is_substring ''what'' long_line"
  proof
    assume "is_substring ''what'' long_line"
    then obtain u v where uv: "long_line = u @ ''what'' @ v" by (auto simp: is_substring_iff)
    have "CHR ''w'' \<in> set (u @ ''what'' @ v)" by simp
    then have "CHR ''w'' \<in> set long_line" by (simp only: uv)
    then show False by (simp add: long_line_def)
  qed
  then show ?thesis by (simp add: sql_contains_literal[OF wf])
qed

text \<open>
  C9 does not hold of the code. \<open>vector_search\<close> cuts \<open>content\<close> to 1000
  characters and keeps the stored text under \<open>full_content\<close> ("Keep full content for
  RAG"), but \<open>CodeSearchTool._run\<close> builds \<open>full_content\<close> from \<open>content\<close>. For the
  indexed file of one 1001-character line, the context block of the only search result
  holds 1000 characters followed by three dots, not the stored chunk.
\<close>

theorem rag_context_truncates:
  "fst (rag_context demo_deps ''what'' ''demo'' (Some long_store)) =
     RagContext [\<lparr>cb_file_path = ''a.py'', cb_start_line = Some 0, cb_end_line = Some 0,
                  cb_language = ''python'',
                  cb_content = replicate 1000 CHR ''x'' @ ''...''\<rparr>] \<and>
   map row_content (code_embeddings long_store) = [replicate 1001 CHR ''x''] \<and>
   replicate 1000 CHR ''x'' @ ''...'' \<noteq> replicate 1001 CHR ''x''"
proof -
  have vs: "fst (vector_search demo_deps ''what'' ''demo'' 8 long_store) =
      [\<lparr>r_file_path = ''a.py'', r_chunk_id = ''chunk_0'',
        r_content = replicate 1000 CHR ''x'' @ ''...'',
        full_content = Some long_line,
        r_metadata = Some \<lparr>md_language = ''python'', md_start_line = 0, md_end_line = 0,
                              md_chunk_size = 1001, md_file_size = 1001\<rparr>,
        similarity_score = Some 1, relevance_score = None, search_type = None,
        combined_score = None\<rparr>]"
    by (simp add: vector_search_def embed_text_def long_store_cache long_store_rows Let_def
          demo_deps_def cache_max_size_def vector_query_def format_vector_def long_line_def)
  have tbl: "code_embeddings (snd (vector_search demo_deps ''what'' ''demo'' 8 long_store)) =
             code_embeddings long_store"
    by (simp add: vector_search_def embed_text_def long_store_cache Let_def
          demo_deps_def cache_max_size_def)
  have fs: "fulltext_search ''what'' ''demo'' 8
              (snd (vector_search demo_deps ''what'' ''demo'' 8 long_store)) = []"
    by (simp add: fulltext_search_def text_query_def tbl long_store_rows no_match)
  have hs: "fst (hybrid_search demo_deps ''what'' ''demo'' 8 long_store) =
      Inr [\<lparr>r_file_path = ''a.py'', r_chunk_id = ''chunk_0'',
        r_content = replicate 1000 CHR ''x'' @ ''...'',
        full_content = Some long_line,
        r_metadata = Some \<lparr>md_language = ''python'', md_start_line = 0, md_end_line = 0,
                              md_chunk_size = 1001, md_file_size = 1001\<rparr>,
        similarity_score = Some 1, relevance_score = None, search_type = Some ''vector'',
        combined_score = Some 1\<rparr>]"
    using vs fs
    by (cases "vector_search demo_deps ''what'' ''demo'' 8 long_store")
       (simp add: hybrid_search_def add_vector_result_def sort_results_def Let_def)
  have "fst (rag_context demo_deps ''what'' ''demo'' (Some long_store)) =
     RagContext [\<lparr>cb_file_path = ''a.py'', cb_start_line = Some 0, cb_end_line = Some 0,
                  cb_language = ''python'',
                  cb_content = replicate 1000 CHR ''x'' @ ''...''\<rparr>]"
    using hs
    by (cases "hybrid_search demo_deps ''what'' ''demo'' 8 long_store")
       (simp add: rag_context_def CodeSearchTool_run_def process_result_def context_of_def)
  moreover have "map row_content (code_embeddings long_store) = [replicate 1001 CHR ''x'']"
    by (simp add: long_store_rows long_line_def)
  moreover have "replicate 1000 CHR ''x'' @ ''...'' \<noteq> replicate 1001 CHR ''x''"
  proof
    assume "replicate 1000 CHR ''x'' @ ''...'' = replicate 1001 CHR ''x''"
    then have "length (replicate 1000 CHR ''x'' @ ''...'') = length (replicate 1001 CHR ''x'')"
      by (rule arg_cong)
    then show False by simp
  qed
  ultimately show ?thesis by blast
qed

section \<open>Indexing establishes the identity invariant\<close>

text \<open>
  The chunker numbers the chunks of a file \<open>chunk_0, chunk_1, ...\<close>, so after
  \<open>index_repository\<close> on files with distinct paths the rows of the repository have
  unique \<open>(file_path, chunk_id)\<close> and colon-free chunk ids: hybrid search is then
  covered by the result above.
\<close>

lemma digit_cases: "d < 10 \<Longrightarrow> d \<in> {0, 1, 2, 3, 4, 5, 6, 7, 8, 9 :: nat}"
  by auto

lemma digit_val_digit_char: "d < 10 \<Longrightarrow> digit_val (digit_char d) = d"
  using digit_cases[of d] by (auto simp: digit_val_def digit_char_def)

lemma digit_char_no_colon: "d < 10 \<Longrightarrow> CHR '':'' \<noteq> digit_char d"
  using digit_cases[of d] by (auto simp: digit_char_def)

lemma digits_val_str_nat: "digits_val (str_nat n) = n"
proof (induction n rule: str_nat.induct)
  case (1 n)
  show ?case
  proof (cases "n < 10")
    case True
    then show ?thesis
      by (subst str_nat.simps) (simp add: digits_val_def digit_val_digit_char)
  next
    case False
    then have ih: "digits_val (str_nat (n div 10)) = n div 10" using 1 by simp
    have "digits_val (str_nat n) = 10 * digits_val (str_nat (n div 10)) + digit_val (digit_char (n mod 10))"
      using False by (subst str_nat.simps) (simp add: digits_val_def)
    then show ?thesis by (simp add: ih digit_val_digit_char)
  qed
qed

lemma str_nat_inj: "str_nat i = str_nat j \<Longrightarrow> i = j"
  by (metis digits_val_str_nat)

lemma str_nat_no_colon: "CHR '':'' \<notin> set (str_nat n)"
proof (induction n rule: str_nat.induct)
  case (1 n)
  show ?case
  proof (cases "n < 10")
    case True
    then show ?thesis by (subst str_nat.simps) (simp add: digit_char_no_colon)
  next
    case False
    then have "CHR '':'' \<notin> set (str_nat (n div 10))" using 1 by simp
    then show ?thesis using False
      by (subst str_nat.simps) (simp add: digit_char_no_colon)
  qed
qed

lemma group_chunks_ids:
  "map chunk_id (group_chunks fp j off gs) = map (\<lambda>i. ''chunk_'' @ str_nat i) [j..<j + length gs]"
proof (induction gs arbitrary: j off)
  case Nil
  then show ?case by simp
next
  case (Cons g gs)
  have "[j..<j + length (g # gs)] = j # [Suc j..<Suc j + length gs]"
    by (simp add: upt_rec)
  then show ?case using Cons by simp
qed

lemma chunk_code_file_ids:
  "distinct (map chunk_id (chunk_code_file s fp n)) \<and>
   (\<forall>c \<in> set (chunk_code_file s fp n). CHR '':'' \<notin> set (chunk_id c) \<and> file_path c = fp)"
proof -
  obtain gs where cs: "chunk_code_file s fp n = group_chunks fp 0 0 gs"
    using chunk_code_file_groups by blast
  have fp: "\<forall>c \<in> set (group_chunks fp j off gs). file_path c = fp" for j off
    by (induction gs arbitrary: j off) auto
  have ids: "map chunk_id (chunk_code_file s fp n) = map (\<lambda>i. ''chunk_'' @ str_nat i) [0..<length gs]"
    using group_chunks_ids[of fp 0 0 gs] by (simp add: cs)
  have "inj_on (\<lambda>i. ''chunk_'' @ str_nat i) (set [0..<length gs])"
    by (auto simp: inj_on_def dest: str_nat_inj)
  then have d: "distinct (map chunk_id (chunk_code_file s fp n))"
    unfolding ids by (simp add: distinct_map)
  have "\<forall>x \<in> set (map chunk_id (chunk_code_file s fp n)). CHR '':'' \<notin> set x"
    unfolding ids using str_nat_no_colon by auto
  then show ?thesis using d fp cs by auto
qed

lemma new_rows_keys:
  fixes cs :: "chunk list"
  assumes "distinct (map chunk_id cs)"
  shows "map (\<lambda>r. (row_file_path r, row_chunk_id r))
           (map (make_row rname rurl fpath lang body) (zip cs es)) =
         map (Pair fpath) (take (length es) (map chunk_id cs))"
proof -
  have "map (\<lambda>r. (row_file_path r, row_chunk_id r))
           (map (make_row rname rurl fpath lang body) (zip cs es)) =
        map (Pair fpath) (map chunk_id (map fst (zip cs es)))"
    by (simp add: make_row_def comp_def case_prod_beta)
  also have "map fst (zip cs es) = take (length es) cs" by (simp add: map_fst_zip_take min_def)
  finally show ?thesis by (simp add: take_map)
qed

lemma index_file_keys:
  assumes inv: "keys_inv st P" and new: "dict_get [] (fi_path fi) \<notin> P"
  shows "keys_inv (index_file D rname rurl fi st) (insert (dict_get [] (fi_path fi)) P)"
proof -
  let ?fpath = "dict_get [] (fi_path fi)"
  let ?body = "dict_get [] (fi_content fi)"
  let ?lang = "dict_get ''unknown'' (fi_language fi)"
  let ?cs = "chunk_code_file ?body ?fpath 1000"
  have weak: "keys_inv st (insert ?fpath P)" using inv by (auto simp: keys_inv_def)
  show ?thesis
  proof (cases "?body = [] \<or> length ?body > 100000")
    case True
    then show ?thesis using weak by (auto simp: index_file_def Let_def)
  next
    case False
    show ?thesis
    proof (cases "encode D (map content ?cs)")
      case None
      then show ?thesis using False weak by (simp add: index_file_def Let_def keys_inv_def)
    next
      case (Some es)
      let ?new = "map (make_row rname rurl ?fpath ?lang ?body) (zip ?cs es)"
      have ids: "distinct (map chunk_id ?cs)"
        and col: "\<forall>c \<in> set ?cs. CHR '':'' \<notin> set (chunk_id c)"
        using chunk_code_file_ids[of ?body ?fpath 1000] by auto
      have nk: "map (\<lambda>r. (row_file_path r, row_chunk_id r)) ?new =
                map (Pair ?fpath) (take (length es) (map chunk_id ?cs))"
        by (rule new_rows_keys[OF ids])
      have dn: "distinct (map (\<lambda>r. (row_file_path r, row_chunk_id r)) ?new)"
        unfolding nk using ids by (simp add: distinct_map inj_on_def distinct_take)
      have pn: "\<forall>r \<in> set ?new. row_file_path r = ?fpath \<and> CHR '':'' \<notin> set (row_chunk_id r)"
        using col by (auto simp: make_row_def dest!: set_zip_leftD)
      have old: "\<forall>r \<in> set (added st). row_file_path r \<noteq> ?fpath"
        using inv new by (auto simp: keys_inv_def)
      have disj: "set (map (\<lambda>r. (row_file_path r, row_chunk_id r)) (added st)) \<inter>
                  set (map (\<lambda>r. (row_file_path r, row_chunk_id r)) ?new) = {}"
        using old pn by auto
      have res: "added (index_file D rname rurl fi st) = added st @ ?new"
        using False Some by (simp add: index_file_def Let_def)
      show ?thesis
        unfolding keys_inv_def res
        using inv dn pn disj by (auto simp: keys_inv_def)
    qed
  qed
qed

lemma index_fold_keys:
  "keys_inv st P \<Longrightarrow> distinct (map (\<lambda>fi. dict_get [] (fi_path fi)) fs) \<Longrightarrow>
   (\<lambda>fi. dict_get [] (fi_path fi)) ` set fs \<inter> P = {} \<Longrightarrow>
   keys_inv (fold (index_file D rname rurl) fs st) (P \<union> (\<lambda>fi. dict_get [] (fi_path fi)) ` set fs)"
proof (induction fs arbitrary: st P)
  case Nil
  then show ?case by simp
next
  case (Cons f fs)
  let ?p = "dict_get [] (fi_path f)"
  have new: "?p \<notin> P" using Cons.prems(3) by auto
  have step: "keys_inv (index_file D rname rurl f st) (insert ?p P)"
    by (rule index_file_keys[OF Cons.prems(1) new])
  have d: "distinct (map (\<lambda>fi. dict_get [] (fi_path fi)) fs)" using Cons.prems(2) by simp
  have disj: "(\<lambda>fi. dict_get [] (fi_path fi)) ` set fs \<inter> insert ?p P = {}"
    using Cons.prems(2,3) by auto
  have "insert ?p P \<union> (\<lambda>fi. dict_get [] (fi_path fi)) ` set fs =
        P \<union> (\<lambda>fi. dict_get [] (fi_path fi)) ` set (f # fs)" by auto
  then show ?case using Cons.IH[OF step d disj] by simp
qed

lemma index_repository_keys_ok:
  assumes "distinct (map (\<lambda>fi. dict_get [] (fi_path fi)) (dict_get [] (rd_files rd)))"
  shows "corpus_keys_ok (code_embeddings (snd (index_repository D rd self)))
           (dict_get [] (rd_repo_name rd))"
proof -
  let ?st = "fold (index_file D (dict_get [] (rd_repo_name rd)) (dict_get [] (rd_github_url rd)))
            (dict_get [] (rd_files rd))
            \<lparr>added = [], indexed_count = 0, total_chunks = 0, calls = []\<rparr>"
  have "keys_inv \<lparr>added = [], indexed_count = 0, total_chunks = 0, calls = []\<rparr> {}"
    by (simp add: keys_inv_def)
  then have "keys_inv ?st ({} \<union> (\<lambda>fi. dict_get [] (fi_path fi)) ` set (dict_get [] (rd_files rd)))"
    using assms by (intro index_fold_keys) auto
  then show ?thesis
    unfolding corpus_keys_ok_def index_repository_rows
    by (auto simp: keys_inv_def list_all_iff)
qed

section \<open>Hybrid search on a repository with a repeated key\<close>

lemma dup_store_rows:
  "map (\<lambda>r. (repo_name r, row_file_path r, row_chunk_id r, row_content r, embedding r))
     (code_embeddings dup_store) =
     [(''demo'', ''b.py'', ''chunk_0'', ''alpha'', [5]),
      (''demo'', ''c.py'', ''chunk_0'', ''beta'', [4]),
      (''demo'', ''a.py'', ''chunk_0'', ''TODO one'', [8]),
      (''demo'', ''a.py'', ''chunk_0'', ''TODO two'', [8])]"
  by (simp add: dup_store_def index_repository_def index_file_def dup_repo_def dict_get_def
        store_init_def Let_def chunk_code_file_single newline_def make_row_def length_deps_def)

lemma dup_store_cache: "embedding_cache dup_store = []"
  by (simp add: dup_store_def index_repository_def store_init_def Let_def)

text \<open>
  C1 does not hold of the code for every repository. Nothing keeps
  \<open>(file_path, chunk_id)\<close> unique: the index "for uniqueness" is not declared unique,
  and \<open>index_repository\<close> on a file list that names \<open>a.py\<close> twice stores two rows
  with the key \<open>(a.py, chunk_0)\<close>. With \<open>limit = 2\<close> the two nearest rows are those
  of \<open>c.py\<close> and \<open>b.py\<close>, and full-text search for \<open>TODO\<close> returns the two rows
  of \<open>a.py\<close>. The first becomes a \<open>fulltext\<close> entry; for the second the key is
  present, the loop reads the entry's \<open>similarity_score\<close>, which a full-text entry
  lacks, and hybrid search raises \<open>KeyError\<close> instead of returning a merged list.
\<close>

theorem hybrid_search_duplicate_key:
  "map (\<lambda>r. (row_file_path r, row_chunk_id r)) (code_embeddings dup_store) =
     [(''b.py'', ''chunk_0''), (''c.py'', ''chunk_0''), (''a.py'', ''chunk_0''), (''a.py'', ''chunk_0'')] \<and>
   map r_file_path (fst (vector_search length_deps ''TODO'' ''demo'' 2 dup_store)) = [''c.py'', ''b.py''] \<and>
   map r_file_path (fulltext_search ''TODO'' ''demo'' 2 dup_store) = [''a.py'', ''a.py''] \<and>
   fst (hybrid_search length_deps ''TODO'' ''demo'' 2 dup_store) = Inl (KeyError ''similarity_score'') \<and>
   fst (CodeSearchTool_run length_deps ''TODO'' ''demo'' ''hybrid'' 2 (Some dup_store)) =
     \<lparr>sr_success = False,
      sr_error = Some (''Search failed: '' @ [CHR 0x27] @ ''similarity_score'' @ [CHR 0x27]),
      sr_results = []\<rparr>"
proof -
  obtain r1 r2 r3 r4 where rows: "code_embeddings dup_store = [r1, r2, r3, r4]"
    and r1: "repo_name r1 = ''demo''" "row_file_path r1 = ''b.py''" "row_chunk_id r1 = ''chunk_0''"
            "row_content r1 = ''alpha''" "embedding r1 = [5]"
    and r2: "repo_name r2 = ''demo''" "row_file_path r2 = ''c.py''" "row_chunk_id r2 = ''chunk_0''"
            "row_content r2 = ''beta''" "embedding r2 = [4]"
    and r3: "repo_name r3 = ''demo''" "row_file_path r3 = ''a.py''" "row_chunk_id r3 = ''chunk_0''"
            "row_content r3 = ''TODO one''" "embedding r3 = [8]"
    and r4: "repo_name r4 = ''demo''" "row_file_path r4 = ''a.py''" "row_chunk_id r4 = ''chunk_0''"
            "row_content r4 = ''TODO two''" "embedding r4 = [8]"
    using dup_store_rows by (auto simp: map_eq_Cons_conv)
  have keys: "map (\<lambda>r. (row_file_path r, row_chunk_id r)) (code_embeddings dup_store) =
     [(''b.py'', ''chunk_0''), (''c.py'', ''chunk_0''), (''a.py'', ''chunk_0''), (''a.py'', ''chunk_0'')]"
    by (simp add: rows r1 r2 r3 r4)
  have vs: "vector_search length_deps ''TODO'' ''demo'' 2 dup_store =
      ([format_vector length_deps [4] r2, format_vector length_deps [4] r1],
       dup_store\<lparr>model_calls := model_calls dup_store @ [[''TODO'']],
                 embedding_cache := [(''TODO'', [4])]\<rparr>)"
    by (simp add: vector_search_def embed_text_def dup_store_cache Let_def rows r1 r2 r3 r4
          length_deps_def cache_max_size_def vector_query_def)
  have fs: "fulltext_search ''TODO'' ''demo'' 2 s = [format_fulltext r3, format_fulltext r4]"
    if "code_embeddings s = code_embeddings dup_store" for s
    by (simp add: fulltext_search_def text_query_def that rows r1 r2 r3 r4 sql_contains_def
          backslash_def)
  have hs: "fst (hybrid_search length_deps ''TODO'' ''demo'' 2 dup_store) =
            Inl (KeyError ''similarity_score'')"
    by (simp add: hybrid_search_def vs fs Let_def add_vector_result_def add_fulltext_result_def
          format_vector_def format_fulltext_def result_key_def r1 r2 r3 r4)
  have cs: "fst (CodeSearchTool_run length_deps ''TODO'' ''demo'' ''hybrid'' 2 (Some dup_store)) =
     \<lparr>sr_success = False,
      sr_error = Some (''Search failed: '' @ [CHR 0x27] @ ''similarity_score'' @ [CHR 0x27]),
      sr_results = []\<rparr>"
    using hs
    by (cases "hybrid_search length_deps ''TODO'' ''demo'' 2 dup_store")
       (simp add: CodeSearchTool_run_def)
  show ?thesis
    using keys hs cs by (simp add: vs fs format_vector_def format_fulltext_def r1 r2 r3 r4)
qed

end
